theory Spec2Isabelle
  imports Complex_Main "HOL-Library.Log_Nat" "HOL-Library.Multiset" "HOL-Library.Sublist"
begin

section \<open>JavaScript values used by the dashboards\<close>

text \<open>
  The three pages (\<^verbatim>\<open>src/app/page.tsx\<close>, \<^verbatim>\<open>src/unnamed/part_000\<close>,
  \<^verbatim>\<open>src/unnamed/part_001\<close>) compute their derived values with \<^verbatim>\<open>useMemo\<close> over
  the current batch \<^verbatim>\<open>data\<close>.  Each memoised computation is embedded as a function of
  the batch (and of the search term where the source reads it).

  A field of a record holds a finite number, written as the rational it denotes: every
  finite double is a rational.  A property that may be missing at run time
  (\<^verbatim>\<open>undefined\<close> or \<^verbatim>\<open>null\<close>) is an \<open>option\<close>.  A string is a list of code units;
  a \<open>char\<close> holds a code unit below 256.
\<close>

type_synonym number = rat

text \<open>The only exception the modelled code can raise: a method call on a missing value.\<close>

datatype error = TypeError

text \<open>\<^verbatim>\<open>x || 0\<close> on a number that may be missing: a missing value and \<open>0\<close> both give \<open>0\<close>.\<close>

definition orZero :: "number option \<Rightarrow> number" where
  "orZero x = (case x of None \<Rightarrow> 0 | Some v \<Rightarrow> v)"

subsection \<open>Double precision arithmetic\<close>

text \<open>
  The value of an arithmetic expression is an IEEE 754 binary64 number: a finite double,
  an infinity, or \<^verbatim>\<open>NaN\<close>.  The two zeros are one value here; the code never divides
  by a value that can be the negative zero and never inspects the sign of a zero.
\<close>

datatype double = Finite rat | PlusInfinity | MinusInfinity | NaN

text \<open>
  The binary exponent of a non-zero rational \<open>x\<close>, the integer \<open>e\<close> with
  \<open>2\<^sup>e \<le> |x| < 2\<^sup>e\<^sup>+\<^sup>1\<close>: the bit lengths of numerator and denominator give it up to one.
\<close>

definition expo :: "rat \<Rightarrow> int" where
  "expo x =
     (let a = fst (quotient_of \<bar>x\<bar>); b = snd (quotient_of \<bar>x\<bar>); k = bitlen a - bitlen b
      in if 2 powi k \<le> \<bar>x\<bar> then k else k - 1)"

text \<open>
  The spacing of the doubles around \<open>x\<close>: 52 fraction bits below the exponent, and the
  spacing \<open>2\<^sup>-\<^sup>1\<^sup>0\<^sup>7\<^sup>4\<close> of the subnormal numbers below the least normal exponent.
\<close>

definition quantum :: "rat \<Rightarrow> rat" where
  "quantum x = 2 powi (max (expo x) (- 1022) - 52)"

text \<open>Rounding to the nearest integer, a tie going to the even one.\<close>

definition roundHalfEven :: "rat \<Rightarrow> int" where
  "roundHalfEven x =
     (let f = \<lfloor>x\<rfloor>; d = x - of_int f
      in if d < 1 / 2 then f else if 1 / 2 < d then f + 1 else if even f then f else f + 1)"

text \<open>
  Rounding to the nearest number with a 53-bit significand (ties to even), the exponent
  not yet bounded above; \<open>fl\<close> is the rounding of IEEE 754, which overflows to an
  infinity when the rounded magnitude reaches \<open>2\<^sup>1\<^sup>0\<^sup>2\<^sup>4\<close>.
\<close>

definition rnd :: "rat \<Rightarrow> rat" where
  "rnd x =
     (if x = 0 then 0
      else sgn x * of_int (roundHalfEven (\<bar>x\<bar> / quantum x)) * quantum x)"

definition fl :: "rat \<Rightarrow> double" where
  "fl x =
     (let y = rnd x
      in if 2 ^ 1024 \<le> y then PlusInfinity
         else if y \<le> - (2 ^ 1024) then MinusInfinity
         else Finite y)"

text \<open>\<^verbatim>\<open>x + y\<close>, \<^verbatim>\<open>x * y\<close> and \<^verbatim>\<open>x / y\<close>: the exact result, rounded.\<close>

fun dadd :: "double \<Rightarrow> double \<Rightarrow> double" where
  "dadd (Finite x) (Finite y) = fl (x + y)"
| "dadd NaN _ = NaN"
| "dadd _ NaN = NaN"
| "dadd PlusInfinity MinusInfinity = NaN"
| "dadd MinusInfinity PlusInfinity = NaN"
| "dadd PlusInfinity _ = PlusInfinity"
| "dadd _ PlusInfinity = PlusInfinity"
| "dadd MinusInfinity _ = MinusInfinity"
| "dadd _ MinusInfinity = MinusInfinity"

text \<open>The infinity of the sign of \<open>s\<close>, for \<open>s \<noteq> 0\<close>.\<close>

definition infinity :: "rat \<Rightarrow> double" where
  "infinity s = (if 0 < s then PlusInfinity else MinusInfinity)"

fun dmul :: "double \<Rightarrow> double \<Rightarrow> double" where
  "dmul (Finite x) (Finite y) = fl (x * y)"
| "dmul NaN _ = NaN"
| "dmul _ NaN = NaN"
| "dmul PlusInfinity (Finite y) = (if y = 0 then NaN else infinity y)"
| "dmul MinusInfinity (Finite y) = (if y = 0 then NaN else infinity (- y))"
| "dmul (Finite x) PlusInfinity = (if x = 0 then NaN else infinity x)"
| "dmul (Finite x) MinusInfinity = (if x = 0 then NaN else infinity (- x))"
| "dmul PlusInfinity PlusInfinity = PlusInfinity"
| "dmul MinusInfinity MinusInfinity = PlusInfinity"
| "dmul PlusInfinity MinusInfinity = MinusInfinity"
| "dmul MinusInfinity PlusInfinity = MinusInfinity"

fun ddiv :: "double \<Rightarrow> double \<Rightarrow> double" where
  "ddiv (Finite x) (Finite y) =
     (if y = 0 then (if x = 0 then NaN else infinity x) else fl (x / y))"
| "ddiv NaN _ = NaN"
| "ddiv _ NaN = NaN"
| "ddiv (Finite x) _ = Finite 0"
| "ddiv PlusInfinity (Finite y) = (if y < 0 then MinusInfinity else PlusInfinity)"
| "ddiv MinusInfinity (Finite y) = (if y < 0 then PlusInfinity else MinusInfinity)"
| "ddiv _ _ = NaN"

text \<open>\<^verbatim>\<open>x > 0\<close>.\<close>

fun gt0 :: "double \<Rightarrow> bool" where
  "gt0 (Finite x) = (0 < x)"
| "gt0 PlusInfinity = True"
| "gt0 _ = False"

subsection \<open>\<^verbatim>\<open>toFixed(2)\<close> and \<^verbatim>\<open>parseFloat\<close>\<close>

text \<open>
  The string \<^verbatim>\<open>x.toFixed(2)\<close>.  For a finite \<open>x\<close> of magnitude below \<open>10\<^sup>2\<^sup>1\<close> the sign is
  set aside and the digits are those of the integer \<open>n\<close> for which \<open>n / 100\<close> is closest
  to \<open>|x|\<close>, the larger one on a tie: \<open>Hundredths\<close> of the sign and \<open>n\<close>.  For every
  other \<open>x\<close> the string is \<^verbatim>\<open>Number::toString\<close> of \<open>x\<close>: \<open>NotFixed x\<close>.
\<close>

datatype fixed = Hundredths bool nat | NotFixed double

fun toFixed2 :: "double \<Rightarrow> fixed" where
  "toFixed2 (Finite x) =
     (if 10 ^ 21 \<le> \<bar>x\<bar> then NotFixed (Finite x)
      else Hundredths (x < 0) (nat \<lfloor>\<bar>x\<bar> * 100 + 1 / 2\<rfloor>))"
| "toFixed2 d = NotFixed d"

text \<open>
  \<^verbatim>\<open>parseFloat\<close> of such a string: the double nearest to the decimal it spells;
  \<^verbatim>\<open>Number::toString\<close> of a double reads back as that double.
\<close>

fun parseFloat :: "fixed \<Rightarrow> double" where
  "parseFloat (Hundredths negative n) =
     fl ((if negative then - 1 else 1) * of_nat n / 100)"
| "parseFloat (NotFixed d) = d"

text \<open>The characters of the string: the decimal digits of a natural number first.\<close>

definition digitChar :: "nat \<Rightarrow> char" where
  "digitChar n = char_of (48 + n)"

function decimal :: "nat \<Rightarrow> string" where
  "decimal n = (if n < 10 then [digitChar n] else decimal (n div 10) @ [digitChar (n mod 10)])"
  by pat_completeness auto
termination
  by (relation "measure id") auto

declare decimal.simps [simp del]

text \<open>
  What a page shows: a number, a string given by its characters, or the string
  \<^verbatim>\<open>Number::toString\<close> makes of a double.
\<close>

datatype shown = NumberShown double | TextShown string | ToStringShown double

fun fixedText :: "fixed \<Rightarrow> shown" where
  "fixedText (Hundredths negative n) =
     TextShown ((if negative then ''-'' else []) @ decimal (n div 100) @ ''.''
                @ [digitChar (n div 10 mod 10), digitChar (n mod 10)])"
| "fixedText (NotFixed d) = ToStringShown d"

subsection \<open>Strings\<close>

text \<open>\<^verbatim>\<open>s.includes(t)\<close>: \<open>t\<close> occurs in \<open>s\<close> as a contiguous substring.\<close>

definition includes_str :: "string \<Rightarrow> string \<Rightarrow> bool" where
  "includes_str s searchString = sublist searchString s"

text \<open>\<^verbatim>\<open>s.charAt(i)\<close>: the one-character string at index \<open>i\<close>, the empty string out of range.\<close>

definition charAt :: "string \<Rightarrow> nat \<Rightarrow> string" where
  "charAt s i = (if i < length s then [s ! i] else [])"

text \<open>
  \<^verbatim>\<open>xs.filter(p)\<close> with a callback that may throw: the elements are visited in order and
  the first exception ends the call.
\<close>

fun filterE :: "('a \<Rightarrow> error + bool) \<Rightarrow> 'a list \<Rightarrow> error + 'a list" where
  "filterE p [] = Inr []"
| "filterE p (x # xs) =
     (case p x of
        Inl e \<Rightarrow> Inl e
      | Inr b \<Rightarrow>
          (case filterE p xs of
             Inl e \<Rightarrow> Inl e
           | Inr ys \<Rightarrow> Inr (if b then x # ys else ys)))"


section \<open>The review dashboard (\<^verbatim>\<open>src/app/page.tsx\<close>)\<close>

text \<open>
  \<^verbatim>\<open>interface ReviewSnippet { rating?: number; snippet?: string }\<close> and
  \<^verbatim>\<open>interface ReviewData { source; rating; count; distribution; reviews }\<close>.
  The object \<^verbatim>\<open>distribution\<close> is the list of its \<^verbatim>\<open>Object.entries\<close>.
  The code guards \<^verbatim>\<open>rating\<close>, \<^verbatim>\<open>count\<close>, \<^verbatim>\<open>distribution\<close> and \<^verbatim>\<open>reviews\<close>
  against a missing value; \<^verbatim>\<open>source\<close>, which the schema requires, is an \<open>option\<close>
  as well, so that a call on a missing source shows as an error.
\<close>

type_synonym ReviewSnippet = "number option \<times> string option"

record ReviewData =
  source :: "string option"
  rating :: "number option"
  count :: "number option"
  distribution :: "(string \<times> number) list option"
  reviews :: "ReviewSnippet list option"

record Summary =
  avgRating :: double
  totalReviews :: double
  sourceCount :: nat

text \<open>
  \<^verbatim>\<open>summary\<close>, lines 104 to 114; \<^verbatim>\<open>reduce\<close> is \<open>foldl\<close>, and every sum, product and
  quotient is a double.
\<close>

definition summary :: "ReviewData list \<Rightarrow> Summary" where
  "summary data =
     (if length data = 0
      then \<lparr>avgRating = Finite 0, totalReviews = Finite 0, sourceCount = 0\<rparr>
      else
        let total = foldl (\<lambda>sum item. dadd sum (Finite (orZero (count item)))) (Finite 0) data;
            weightedTotalRating =
              foldl (\<lambda>sum item.
                       dadd sum (dmul (Finite (orZero (rating item)))
                                      (Finite (orZero (count item)))))
                (Finite 0) data;
            avg = (if gt0 total then ddiv weightedTotalRating total else Finite 0)
        in \<lparr>avgRating = parseFloat (toFixed2 avg), totalReviews = total,
            sourceCount = length data\<rparr>)"

text \<open>
  \<^verbatim>\<open>ratingDistributionData\<close>, lines 116 to 135.  The object \<^verbatim>\<open>combined\<close> is a map
  from property names to numbers; \<^verbatim>\<open>combined.hasOwnProperty(key)\<close> asks whether the
  map is defined at \<open>key\<close>.  The bucket counts are whole numbers, whose sums are exact
  in double arithmetic up to \<open>2\<^sup>5\<^sup>3\<close>; they are added exactly.
\<close>

definition combined_init :: "string \<rightharpoonup> number" where
  "combined_init = [''5'' \<mapsto> 0, ''4'' \<mapsto> 0, ''3'' \<mapsto> 0, ''2'' \<mapsto> 0, ''1'' \<mapsto> 0]"

text \<open>The body of the inner \<^verbatim>\<open>for\<close> loop, for one entry \<^verbatim>\<open>[rating, count]\<close>.\<close>

definition addEntry :: "string \<times> number \<Rightarrow> (string \<rightharpoonup> number) \<Rightarrow> (string \<rightharpoonup> number)" where
  "addEntry entry combined =
     (let key = charAt (fst entry) 0 in
      case combined key of
        None \<Rightarrow> combined
      | Some c \<Rightarrow> combined(key \<mapsto> c + snd entry))"

text \<open>The body of \<^verbatim>\<open>data.forEach\<close>, for one record.\<close>

definition addSource :: "ReviewData \<Rightarrow> (string \<rightharpoonup> number) \<Rightarrow> (string \<rightharpoonup> number)" where
  "addSource src combined =
     (case distribution src of
        None \<Rightarrow> combined
      | Some d \<Rightarrow> fold addEntry d combined)"

definition ratingDistributionData :: "ReviewData list \<Rightarrow> (number \<times> number) list" where
  "ratingDistributionData data =
     (let combined = fold addSource data combined_init in
      [(5, the (combined ''5'')),
       (4, the (combined ''4'')),
       (3, the (combined ''3'')),
       (2, the (combined ''2'')),
       (1, the (combined ''1''))])"


section \<open>The source filter (\<^verbatim>\<open>src/unnamed/part_001\<close>)\<close>

text \<open>
  \<^verbatim>\<open>interface Review\<close> has the five fields of \<^verbatim>\<open>ReviewData\<close>.
  \<^verbatim>\<open>filteredReviews\<close>, lines 56 to 61: \<^verbatim>\<open>!searchTerm\<close> holds for the empty string only;
  \<^verbatim>\<open>review.source.toLowerCase()\<close> throws when \<^verbatim>\<open>source\<close> is missing.
  \<^verbatim>\<open>String.prototype.toLowerCase\<close> is the platform's Unicode lower-casing; it is the
  parameter \<open>toLowerCase\<close>, and what is proved holds for every such function.
\<close>

type_synonym Review = ReviewData

definition filteredReviews ::
    "(string \<Rightarrow> string) \<Rightarrow> string \<Rightarrow> Review list \<Rightarrow> error + Review list" where
  "filteredReviews toLowerCase searchTerm data =
     (if searchTerm = [] then Inr data
      else filterE (\<lambda>review.
             case source review of
               None \<Rightarrow> Inl TypeError
             | Some s \<Rightarrow> Inr (includes_str (toLowerCase s) (toLowerCase searchTerm))) data)"


section \<open>The business listing (\<^verbatim>\<open>src/unnamed/part_000\<close>)\<close>

text \<open>
  \<^verbatim>\<open>interface Business\<close>; the field names \<^verbatim>\<open>rating\<close> and \<^verbatim>\<open>reviews\<close> carry a
  suffix here.  The fields the code reads may be missing at run time.
\<close>

record Business =
  name :: "string option"
  category :: "string option"
  address :: string
  rating_b :: "number option"
  reviews_b :: "number option"
  website :: string
  phone :: string
  priceLevel :: string
  hours :: string
  serviceOptions :: string
  latitude :: number
  longitude :: number

text \<open>
  \<^verbatim>\<open>filteredData\<close>, lines 73 to 79.  \<^verbatim>\<open>||\<close> evaluates its right operand only when the
  left one is false.
\<close>

definition filteredData ::
    "(string \<Rightarrow> string) \<Rightarrow> string \<Rightarrow> Business list \<Rightarrow> error + Business list" where
  "filteredData toLowerCase searchTerm data =
     (if searchTerm = [] then Inr data
      else filterE (\<lambda>item.
             case name item of
               None \<Rightarrow> Inl TypeError
             | Some n \<Rightarrow>
                 if includes_str (toLowerCase n) (toLowerCase searchTerm) then Inr True
                 else (case category item of
                         None \<Rightarrow> Inl TypeError
                       | Some c \<Rightarrow>
                           Inr (includes_str (toLowerCase c) (toLowerCase searchTerm)))) data)"

text \<open>
  \<^verbatim>\<open>averageRating\<close>, lines 81 to 85: the number \<open>0\<close> for the empty batch, otherwise the
  string \<^verbatim>\<open>(total / data.length).toFixed(2)\<close>.  The length of an array is a whole
  number below \<open>2\<^sup>3\<^sup>2\<close>, a double.
\<close>

definition averageRating :: "Business list \<Rightarrow> shown" where
  "averageRating data =
     (if length data = 0 then NumberShown (Finite 0)
      else
        let total = foldl (\<lambda>sum item. dadd sum (Finite (orZero (rating_b item)))) (Finite 0) data
        in fixedText (toFixed2 (ddiv total (Finite (of_nat (length data))))))"

text \<open>
  \<^verbatim>\<open>ratingDistribution\<close>, lines 87 to 103.  The array of \<^verbatim>\<open>{ name, count }\<close> objects is
  a list of pairs; \<^verbatim>\<open>distribution[i].count++\<close> is \<open>bump i\<close>.  A missing rating compares
  false with every bound.
\<close>

definition distribution_init :: "(string \<times> nat) list" where
  "distribution_init =
     [(''5 Stars'', 0), (''4-4.9 Stars'', 0), (''3-3.9 Stars'', 0),
      (''2-2.9 Stars'', 0), (''1-1.9 Stars'', 0)]"

definition bump :: "nat \<Rightarrow> (string \<times> nat) list \<Rightarrow> (string \<times> nat) list" where
  "bump i d = d[i := (fst (d ! i), snd (d ! i) + 1)]"

definition geq :: "number option \<Rightarrow> number \<Rightarrow> bool" where
  "geq x b = (case x of None \<Rightarrow> False | Some r \<Rightarrow> r \<ge> b)"

definition countItem :: "Business \<Rightarrow> (string \<times> nat) list \<Rightarrow> (string \<times> nat) list" where
  "countItem item d =
     (if geq (rating_b item) 5 then bump 0 d
      else if geq (rating_b item) 4 then bump 1 d
      else if geq (rating_b item) 3 then bump 2 d
      else if geq (rating_b item) 2 then bump 3 d
      else if geq (rating_b item) 1 then bump 4 d
      else d)"

definition ratingDistribution :: "Business list \<Rightarrow> (string \<times> nat) list" where
  "ratingDistribution data = fold countItem data distribution_init"


section \<open>Notions of the specification and example batches\<close>

text \<open>Three sources, the third with every optional field missing.\<close>

definition scenario :: "ReviewData list" where
  "scenario =
     [\<lparr>source = Some ''A'', rating = Some 4, count = Some 100,
       distribution = Some [(''5'', 60), (''4'', 40)], reviews = None\<rparr>,
      \<lparr>source = Some ''B'', rating = Some 5, count = Some 50,
       distribution = Some [(''5'', 50)], reviews = None\<rparr>,
      \<lparr>source = Some ''C'', rating = None, count = None,
       distribution = None, reviews = None\<rparr>]"

text \<open>
  The sum of a list of doubles, added from the left in double arithmetic, and the
  weighted average in the words of the specification: the sum of rating times count
  over the sum of the counts, a missing rating or count taken as \<open>0\<close>.
\<close>

definition sumInOrder :: "double list \<Rightarrow> double" where
  "sumInOrder xs = foldl dadd (Finite 0) xs"

definition spec_weightedAverage :: "ReviewData list \<Rightarrow> double" where
  "spec_weightedAverage data =
     ddiv (sumInOrder
             (map (\<lambda>item. dmul (Finite (orZero (rating item))) (Finite (orZero (count item))))
                data))
          (sumInOrder (map (\<lambda>item. Finite (orZero (count item))) data))"

text \<open>
  The ratings of the records that carry weight: those whose count is positive, a missing
  rating taken as \<open>0\<close>.  The interval of weighted-mean boundedness is spanned by them.
\<close>

definition ratedRatings :: "ReviewData list \<Rightarrow> number list" where
  "ratedRatings data =
     map (\<lambda>item. orZero (rating item)) (filter (\<lambda>item. 0 < orZero (count item)) data)"

text \<open>
  A count is a whole number, not negative; a number is a multiple of \<open>2\<^sup>-\<^sup>k\<close> with a
  significand below \<open>2\<^sup>5\<^sup>3\<close>; a double is finite and lies between two bounds.
\<close>

definition wholeCount :: "number \<Rightarrow> bool" where
  "wholeCount c \<longleftrightarrow> 0 \<le> c \<and> of_int \<lfloor>c\<rfloor> = c"

definition onGrid :: "nat \<Rightarrow> rat \<Rightarrow> bool" where
  "onGrid k x \<longleftrightarrow> of_int \<lfloor>x * 2 ^ k\<rfloor> = x * 2 ^ k \<and> \<bar>x\<bar> * 2 ^ k < 2 ^ 53"

definition finiteWithin :: "rat \<Rightarrow> rat \<Rightarrow> double \<Rightarrow> bool" where
  "finiteWithin lo hi d = (case d of Finite v \<Rightarrow> lo \<le> v \<and> v \<le> hi | _ \<Rightarrow> False)"

text \<open>
  One source whose rating has three decimals; the literal \<^verbatim>\<open>4.333\<close> denotes the double
  nearest to it.
\<close>

definition fineRating :: "ReviewData list" where
  "fineRating =
     [\<lparr>source = Some ''A'', rating = Some (rnd (4333 / 1000)), count = Some 1,
       distribution = None, reviews = None\<rparr>]"

text \<open>
  Two sources with the same rating \<^verbatim>\<open>3.245\<close>; two whose exact mean is \<open>3.525\<close>; and
  two, with many reviews, whose exact mean is \<open>3.025\<close>.
\<close>

definition sameRating :: "ReviewData list" where
  "sameRating =
     [\<lparr>source = Some ''A'', rating = Some (rnd (3245 / 1000)), count = Some 1,
       distribution = None, reviews = None\<rparr>,
      \<lparr>source = Some ''B'', rating = Some (rnd (3245 / 1000)), count = Some 2,
       distribution = None, reviews = None\<rparr>]"



text \<open>The five property names of \<^verbatim>\<open>combined\<close>, in the order of the output.\<close>

definition buckets :: "string list" where
  "buckets = [''5'', ''4'', ''3'', ''2'', ''1'']"

text \<open>
  What one distribution, one record and one key contribute according to the code: the
  values of the entries whose key has the given first character.
\<close>

definition entryTotal :: "string \<Rightarrow> (string \<times> number) list \<Rightarrow> number" where
  "entryTotal star d = sum_list (map snd (filter (\<lambda>entry. charAt (fst entry) 0 = star) d))"

definition recordTotal :: "string \<Rightarrow> ReviewData \<Rightarrow> number" where
  "recordTotal star item = (case distribution item of None \<Rightarrow> 0 | Some d \<Rightarrow> entryTotal star d)"








text \<open>
  Containment of the query as a case-insensitive substring, in the words of the
  specification: some contiguous part of the text equals the query up to letter case,
  that is, has the same lower-case form.
\<close>

definition spec_ciContains :: "(string \<Rightarrow> string) \<Rightarrow> string \<Rightarrow> string \<Rightarrow> bool" where
  "spec_ciContains toLowerCase text query \<longleftrightarrow>
     (\<exists>s. sublist s text \<and> toLowerCase s = toLowerCase query)"

text \<open>
  \<^verbatim>\<open>toLowerCase\<close> on strings of code units below 256, for running the examples: Unicode
  lowers \<open>A\<close> to \<open>Z\<close> and the letters from U+00C0 to U+00DE other than the sign U+00D7,
  each to the code unit 32 above, and keeps every other code unit below 256.
\<close>

definition lowerUnit :: "char \<Rightarrow> char" where
  "lowerUnit c =
     (let n = (of_char c :: nat)
      in if (65 \<le> n \<and> n \<le> 90) \<or> (192 \<le> n \<and> n \<le> 222 \<and> n \<noteq> 215) then char_of (n + 32)
         else c)"

definition lowerLatin1 :: "string \<Rightarrow> string" where
  "lowerLatin1 s = map lowerUnit s"

text \<open>A record that has its source and nothing else, and the three sources of the scenario.\<close>

definition bare :: "string \<Rightarrow> ReviewData" where
  "bare s =
     \<lparr>source = Some s, rating = None, count = None, distribution = None, reviews = None\<rparr>"

definition sites :: "Review list" where
  "sites = [bare ''Agoda'', bare ''Booking'', bare ''TripAdvisor'']"

text \<open>The optional fields of a record are all missing.\<close>

definition noFields :: "ReviewData \<Rightarrow> bool" where
  "noFields item \<longleftrightarrow>
     rating item = None \<and> count item = None \<and> distribution item = None \<and> reviews item = None"

text \<open>A business with a name, a category, a rating and a number of reviews.\<close>

definition business :: "string \<Rightarrow> string \<Rightarrow> number \<Rightarrow> number \<Rightarrow> Business" where
  "business n c r v =
     \<lparr>name = Some n, category = Some c, address = ''N/A'', rating_b = Some r,
      reviews_b = Some v, website = ''N/A'', phone = ''N/A'', priceLevel = ''N/A'',
      hours = ''N/A'', serviceOptions = ''N/A'', latitude = 0, longitude = 0\<rparr>"

definition shops :: "Business list" where
  "shops =
     [business ''Saravana Bhavan'' ''Restaurant'' 4 100, business ''Cafe Mercara'' ''Cafe'' 5 50]"

text \<open>A listing whose name ends in the letter U+00C9, and the query of the letter U+00E9.\<close>

definition accented :: "Business list" where
  "accented = [business (''CAF'' @ [CHR 0xC9]) ''Coffee'' 4 10, business ''Bistro'' ''Diner'' 4 10]"

text \<open>
  The mean of the ratings weighted by the review counts, in the words of the
  specification, in the arithmetic of the program.
\<close>

definition spec_weightedMean :: "Business list \<Rightarrow> double" where
  "spec_weightedMean data =
     ddiv (sumInOrder
             (map (\<lambda>item. dmul (Finite (orZero (rating_b item))) (Finite (orZero (reviews_b item))))
                data))
          (sumInOrder (map (\<lambda>item. Finite (orZero (reviews_b item))) data))"

text \<open>Four businesses, three rated \<open>3\<close> and one rated \<^verbatim>\<open>3.1\<close>.\<close>

definition quartet :: "Business list" where
  "quartet =
     [business ''A'' ''Cafe'' 3 10, business ''B'' ''Cafe'' 3 10, business ''C'' ''Cafe'' 3 10,
      business ''D'' ''Cafe'' (rnd (31 / 10)) 10]"

text \<open>A business is rated within \<open>[lo, hi)\<close>, or at least \<open>lo\<close>; a missing rating never is.\<close>

definition ratedIn :: "number \<Rightarrow> number \<Rightarrow> Business \<Rightarrow> bool" where
  "ratedIn lo hi item = (case rating_b item of None \<Rightarrow> False | Some r \<Rightarrow> lo \<le> r \<and> r < hi)"

definition ratedFrom :: "number \<Rightarrow> Business \<Rightarrow> bool" where
  "ratedFrom lo item = (case rating_b item of None \<Rightarrow> False | Some r \<Rightarrow> lo \<le> r)"

text \<open>Ratings above five, between four and five, below one, and missing.\<close>

definition unrated :: "Business list" where
  "unrated =
     [business ''Saravana Bhavan'' ''Restaurant'' (11 / 2) 100,
      business ''Cafe Mercara'' ''Cafe'' (9 / 2) 50,
      business ''New Stall'' ''Restaurant'' (1 / 2) 2,
      (business ''Closed'' ''Cafe'' 0 0)\<lparr>rating_b := None\<rparr>]"


section \<open>Double precision arithmetic: rounding\<close>

text \<open>
  The exponent is characterised by its two bounds.  Rounding is odd and monotone, moves
  a number by at most half a spacing, and fixes the numbers with a significand of 53
  bits; so the rounding of a number stays between any two doubles that enclose it.
\<close>

lemma floor_rat_numeral [simp]:
  "\<lfloor>numeral a / numeral b :: rat\<rfloor> = numeral a div numeral b"
  using floor_divide_of_int_eq [of "numeral a" "numeral b", where ?'a = rat] by simp

lemma floor_rat_one_numeral [simp]:
  "\<lfloor>1 / numeral b :: rat\<rfloor> = 1 div numeral b"
  using floor_divide_of_int_eq [of 1 "numeral b", where ?'a = rat] by simp

lemma expo_bounds:
  assumes "x \<noteq> 0"
  shows "2 powi expo x \<le> \<bar>x\<bar>" and "\<bar>x\<bar> < 2 powi (expo x + 1)"
proof -
  obtain a b where q: "quotient_of \<bar>x\<bar> = (a, b)" by (cases "quotient_of \<bar>x\<bar>")
  then have b: "0 < b" and x: "\<bar>x\<bar> = of_int a / of_int b"
    by (auto dest: quotient_of_denom_pos quotient_of_div)
  from assms have "0 < \<bar>x\<bar>" by simp
  with b x have a: "0 < a" by (simp add: zero_less_divide_iff)
  define k where "k = bitlen a - bitlen b"
  have la: "1 \<le> bitlen a" and lb: "1 \<le> bitlen b"
    using a b by (auto simp: bitlen_alt_def)
  have a1: "(2::rat) powi (bitlen a - 1) \<le> of_int a"
  proof -
    have "(of_int (2 ^ nat (bitlen a - 1)) :: rat) \<le> of_int a"
      using bitlen_bounds [OF a] by (simp only: of_int_le_iff)
    then show ?thesis
      using la by (simp add: power_int_nonneg_exp)
  qed
  have a2: "of_int a < (2::rat) powi bitlen a"
  proof -
    have "(of_int a :: rat) < of_int (2 ^ nat (bitlen a))"
      using bitlen_bounds [OF a] by (simp only: of_int_less_iff)
    then show ?thesis
      using la by (simp add: power_int_nonneg_exp)
  qed
  have b1: "(2::rat) powi (bitlen b - 1) \<le> of_int b"
  proof -
    have "(of_int (2 ^ nat (bitlen b - 1)) :: rat) \<le> of_int b"
      using bitlen_bounds [OF b] by (simp only: of_int_le_iff)
    then show ?thesis
      using lb by (simp add: power_int_nonneg_exp)
  qed
  have b2: "of_int b < (2::rat) powi bitlen b"
  proof -
    have "(of_int b :: rat) < of_int (2 ^ nat (bitlen b))"
      using bitlen_bounds [OF b] by (simp only: of_int_less_iff)
    then show ?thesis
      using lb by (simp add: power_int_nonneg_exp)
  qed
  have bpos: "(0::rat) < of_int b" using b by simp
  have up: "\<bar>x\<bar> < 2 powi (k + 1)"
  proof -
    have "of_int a * (2::rat) powi (bitlen b - 1) < 2 powi bitlen a * of_int b"
      using a2 b1 a bpos by (intro mult_less_le_imp_less) simp_all
    then have "of_int a / of_int b < (2::rat) powi bitlen a / 2 powi (bitlen b - 1)"
      using bpos by (simp add: field_simps)
    also have "\<dots> = 2 powi (bitlen a - (bitlen b - 1))"
      by (rule power_int_diff [symmetric]) simp
    also have "bitlen a - (bitlen b - 1) = k + 1"
      by (simp add: k_def)
    finally show ?thesis by (simp add: x)
  qed
  have low: "2 powi (k - 1) \<le> \<bar>x\<bar>"
  proof -
    have "(2::rat) powi (bitlen a - 1) * of_int b \<le> of_int a * 2 powi bitlen b"
      using a1 b2 bpos a by (intro mult_mono) simp_all
    then have "(2::rat) powi (bitlen a - 1) / 2 powi bitlen b \<le> of_int a / of_int b"
      using bpos by (simp add: field_simps)
    moreover have "(2::rat) powi (bitlen a - 1) / 2 powi bitlen b = 2 powi (bitlen a - 1 - bitlen b)"
      by (rule power_int_diff [symmetric]) simp
    moreover have "bitlen a - 1 - bitlen b = k - 1"
      by (simp add: k_def)
    ultimately show ?thesis by (simp add: x)
  qed
  have e: "expo x = (if 2 powi k \<le> \<bar>x\<bar> then k else k - 1)"
    by (simp add: expo_def q k_def Let_def)
  show "2 powi expo x \<le> \<bar>x\<bar>"
    using low by (simp add: e)
  show "\<bar>x\<bar> < 2 powi (expo x + 1)"
    using up by (simp add: e)
qed

lemma power_int_less_cancel:
  fixes a b :: int
  assumes "(2::rat) powi a < 2 powi b"
  shows "a < b"
proof (rule ccontr)
  assume "\<not> a < b"
  then have "b \<le> a" by simp
  then have "(2::rat) powi b \<le> 2 powi a"
    by (rule power_int_increasing) simp
  with assms show False by simp
qed

lemma expo_unique:
  assumes "2 powi e \<le> \<bar>x\<bar>" and "\<bar>x\<bar> < 2 powi (e + 1)"
  shows "expo x = e"
proof -
  have "(0::rat) < 2 powi e" by simp
  from this assms(1) have "0 < \<bar>x\<bar>" by (rule less_le_trans)
  then have nz: "x \<noteq> 0" by simp
  note b = expo_bounds [OF nz]
  have "(2::rat) powi expo x < 2 powi (e + 1)"
    using b(1) assms(2) by (rule le_less_trans)
  then have "expo x < e + 1"
    by (rule power_int_less_cancel)
  moreover have "(2::rat) powi e < 2 powi (expo x + 1)"
    using assms(1) b(2) by (rule le_less_trans)
  then have "e < expo x + 1"
    by (rule power_int_less_cancel)
  ultimately show ?thesis by simp
qed

lemma pow2_shift52: "(2::rat) powi (e - 52) * 2 ^ 52 = 2 powi e"
proof -
  have "(2::rat) powi (e - 52) * 2 powi 52 = 2 powi (e - 52 + 52)"
    by (rule power_int_add [symmetric]) simp
  also have "e - 52 + 52 = e"
    by simp
  finally show ?thesis
    by (simp only: power_int_numeral)
qed

lemma pow2_shift53: "(2::rat) powi (e - 52) * 2 ^ 53 = 2 powi (e + 1)"
proof -
  have "(2::rat) powi (e - 52) * 2 powi 53 = 2 powi (e - 52 + 53)"
    by (rule power_int_add [symmetric]) simp
  also have "e - 52 + 53 = e + 1"
    by simp
  finally show ?thesis
    by (simp only: power_int_numeral)
qed

lemma quantum_pos: "0 < quantum x"
  by (simp add: quantum_def)

lemma quantum_minus: "quantum (- x) = quantum x"
  by (simp add: quantum_def expo_def)

lemma roundHalfEven_of_int: "roundHalfEven (of_int k) = k"
  by (simp add: roundHalfEven_def)

lemma roundHalfEven_ge: "\<lfloor>x\<rfloor> \<le> roundHalfEven x"
  by (simp add: roundHalfEven_def Let_def)

lemma roundHalfEven_le: "roundHalfEven x \<le> \<lfloor>x\<rfloor> + 1"
  by (simp add: roundHalfEven_def Let_def)

lemma roundHalfEven_mono:
  assumes "x \<le> y"
  shows "roundHalfEven x \<le> roundHalfEven y"
proof (cases "\<lfloor>x\<rfloor> = \<lfloor>y\<rfloor>")
  case True
  with assms have "x - of_int \<lfloor>x\<rfloor> \<le> y - of_int \<lfloor>y\<rfloor>"
    by simp
  with True show ?thesis
    by (auto simp: roundHalfEven_def Let_def)
next
  case False
  moreover from assms have "\<lfloor>x\<rfloor> \<le> \<lfloor>y\<rfloor>"
    by (rule floor_mono)
  ultimately have "\<lfloor>x\<rfloor> + 1 \<le> \<lfloor>y\<rfloor>"
    by simp
  with roundHalfEven_le [of x] roundHalfEven_ge [of y] show ?thesis
    by linarith
qed

lemma roundHalfEven_near: "\<bar>of_int (roundHalfEven x) - x\<bar> \<le> 1 / 2"
proof -
  have "of_int \<lfloor>x\<rfloor> \<le> x" and "x < of_int \<lfloor>x\<rfloor> + 1"
    by linarith+
  then show ?thesis
    by (auto simp: roundHalfEven_def Let_def abs_le_iff)
qed

text \<open>The scaled magnitude of a non-zero number lies below \<open>2^53\<close>, and from \<open>2^52\<close> on
  in the normal range.\<close>

lemma scaled_upper:
  assumes "x \<noteq> 0"
  shows "\<bar>x\<bar> / quantum x < 2 ^ 53"
proof -
  let ?E = "max (expo x) (- 1022)"
  have "\<bar>x\<bar> < 2 powi (expo x + 1)"
    by (rule expo_bounds(2) [OF assms])
  also have "(2::rat) powi (expo x + 1) \<le> 2 powi (?E + 1)"
    by (rule power_int_increasing) simp_all
  also have "(2::rat) powi (?E + 1) = 2 powi (?E - 52) * 2 ^ 53"
    by (rule pow2_shift53 [symmetric])
  finally have "\<bar>x\<bar> < quantum x * 2 ^ 53"
    by (simp add: quantum_def)
  then show ?thesis
    using quantum_pos [of x] by (simp add: pos_divide_less_eq mult.commute)
qed

lemma scaled_lower:
  assumes "x \<noteq> 0" and "- 1022 \<le> expo x"
  shows "2 ^ 52 \<le> \<bar>x\<bar> / quantum x"
proof -
  have E: "max (expo x) (- 1022) = expo x"
    using assms(2) by simp
  have "(2::rat) powi (expo x - 52) * 2 ^ 52 = 2 powi expo x"
    by (rule pow2_shift52)
  also have "\<dots> \<le> \<bar>x\<bar>"
    by (rule expo_bounds(1) [OF assms(1)])
  finally have "quantum x * 2 ^ 52 \<le> \<bar>x\<bar>"
    by (simp add: quantum_def E)
  then show ?thesis
    using quantum_pos [of x] by (simp add: pos_le_divide_eq mult.commute)
qed

lemma rnd_minus: "rnd (- x) = - rnd x"
  by (simp add: rnd_def quantum_minus sgn_minus)

lemma rnd_abs:
  "\<bar>rnd x\<bar> = of_int (roundHalfEven (\<bar>x\<bar> / quantum x)) * quantum x"
proof (cases "x = 0")
  case True
  then show ?thesis by (simp add: rnd_def roundHalfEven_def)
next
  case False
  have "0 \<le> \<bar>x\<bar> / quantum x"
    using quantum_pos [of x] by simp
  then have "0 \<le> \<lfloor>\<bar>x\<bar> / quantum x\<rfloor>"
    by simp
  with roundHalfEven_ge [of "\<bar>x\<bar> / quantum x"]
  have "0 \<le> roundHalfEven (\<bar>x\<bar> / quantum x)"
    by linarith
  with False quantum_pos [of x] show ?thesis
    by (simp add: rnd_def abs_mult abs_sgn_eq)
qed

lemma rnd_nonneg:
  assumes "0 \<le> x"
  shows "0 \<le> rnd x"
proof -
  have "0 \<le> of_int (roundHalfEven (\<bar>x\<bar> / quantum x)) * quantum x"
    using rnd_abs [of x] abs_ge_zero [of "rnd x"] by simp
  then show ?thesis
    using assms by (cases "x = 0") (simp_all add: rnd_def mult.assoc)
qed

lemma rnd_nonpos:
  assumes "x \<le> 0"
  shows "rnd x \<le> 0"
proof -
  have "0 \<le> rnd (- x)"
    using assms by (intro rnd_nonneg) simp
  then show ?thesis
    by (simp add: rnd_minus)
qed

lemma rnd_upper:
  assumes "x \<noteq> 0"
  shows "\<bar>rnd x\<bar> \<le> 2 powi (max (expo x) (- 1022) + 1)"
proof -
  have "\<bar>x\<bar> / quantum x \<le> of_int (2 ^ 53)"
    using scaled_upper [OF assms] by simp
  then have "roundHalfEven (\<bar>x\<bar> / quantum x) \<le> roundHalfEven (of_int (2 ^ 53))"
    by (rule roundHalfEven_mono)
  then have "roundHalfEven (\<bar>x\<bar> / quantum x) \<le> 2 ^ 53"
    by (simp only: roundHalfEven_of_int)
  then have "(of_int (roundHalfEven (\<bar>x\<bar> / quantum x)) :: rat) \<le> of_int (2 ^ 53)"
    by (simp only: of_int_le_iff)
  then have "\<bar>rnd x\<bar> \<le> 2 ^ 53 * quantum x"
    using quantum_pos [of x] by (simp add: rnd_abs)
  also have "2 ^ 53 * quantum x = 2 powi (max (expo x) (- 1022) + 1)"
    using pow2_shift53 [of "max (expo x) (- 1022)"] by (simp add: quantum_def mult.commute)
  finally show ?thesis .
qed

lemma rnd_lower:
  assumes "x \<noteq> 0" and "- 1022 \<le> expo x"
  shows "2 powi expo x \<le> \<bar>rnd x\<bar>"
proof -
  have "of_int (2 ^ 52) \<le> \<bar>x\<bar> / quantum x"
    using scaled_lower [OF assms] by simp
  then have "roundHalfEven (of_int (2 ^ 52)) \<le> roundHalfEven (\<bar>x\<bar> / quantum x)"
    by (rule roundHalfEven_mono)
  then have "2 ^ 52 \<le> roundHalfEven (\<bar>x\<bar> / quantum x)"
    by (simp only: roundHalfEven_of_int)
  then have "(of_int (2 ^ 52) :: rat) \<le> of_int (roundHalfEven (\<bar>x\<bar> / quantum x))"
    by (simp only: of_int_le_iff)
  then have "2 ^ 52 * quantum x \<le> \<bar>rnd x\<bar>"
    using quantum_pos [of x] by (simp add: rnd_abs)
  moreover have "2 ^ 52 * quantum x = 2 powi expo x"
    using assms(2) pow2_shift52 [of "expo x"] by (simp add: quantum_def mult.commute)
  ultimately show ?thesis by simp
qed

lemma expo_mono:
  assumes "0 < x" and "x \<le> y"
  shows "expo x \<le> expo y"
proof -
  from assms have nx: "x \<noteq> 0" and ny: "y \<noteq> 0" by simp_all
  have "2 powi expo x \<le> \<bar>x\<bar>"
    by (rule expo_bounds(1) [OF nx])
  also have "\<bar>x\<bar> \<le> \<bar>y\<bar>"
    using assms by simp
  also have "\<bar>y\<bar> < 2 powi (expo y + 1)"
    by (rule expo_bounds(2) [OF ny])
  finally have "expo x < expo y + 1"
    by (rule power_int_less_cancel)
  then show ?thesis by simp
qed

lemma rnd_pos_eq:
  assumes "0 < x"
  shows "rnd x = of_int (roundHalfEven (x / quantum x)) * quantum x"
  using assms by (simp add: rnd_def)

lemma rnd_mono_pos:
  assumes "0 < x" and "x \<le> y"
  shows "rnd x \<le> rnd y"
proof -
  from assms have y: "0 < y" by simp
  from assms y have nx: "x \<noteq> 0" and ny: "y \<noteq> 0" by simp_all
  let ?Ex = "max (expo x) (- 1022)" and ?Ey = "max (expo y) (- 1022)"
  have ee: "expo x \<le> expo y"
    by (rule expo_mono [OF assms])
  show ?thesis
  proof (cases "?Ex = ?Ey")
    case True
    then have q: "quantum x = quantum y"
      by (simp add: quantum_def)
    have "x / quantum y \<le> y / quantum y"
      using assms(2) quantum_pos [of y] by (simp add: divide_right_mono)
    then have "roundHalfEven (x / quantum y) \<le> roundHalfEven (y / quantum y)"
      by (rule roundHalfEven_mono)
    then have "(of_int (roundHalfEven (x / quantum y)) :: rat) \<le> of_int (roundHalfEven (y / quantum y))"
      by (simp only: of_int_le_iff)
    then show ?thesis
      using quantum_pos [of y] by (simp add: rnd_pos_eq [OF assms(1)] rnd_pos_eq [OF y] q)
  next
    case False
    with ee have lt: "?Ex < ?Ey"
      by (auto simp: max_def split: if_splits)
    then have normal: "- 1022 \<le> expo y" and Ey: "?Ey = expo y"
      by (auto simp: max_def split: if_splits)
    have "rnd x \<le> \<bar>rnd x\<bar>" by simp
    also have "\<bar>rnd x\<bar> \<le> 2 powi (?Ex + 1)"
      by (rule rnd_upper [OF nx])
    also have "(2::rat) powi (?Ex + 1) \<le> 2 powi expo y"
    proof (rule power_int_increasing)
      show "?Ex + 1 \<le> expo y" using lt Ey by linarith
    qed simp
    also have "2 powi expo y \<le> \<bar>rnd y\<bar>"
      by (rule rnd_lower [OF ny normal])
    also have "\<bar>rnd y\<bar> = rnd y"
      using rnd_nonneg [of y] y by simp
    finally show ?thesis .
  qed
qed

lemma rnd_mono:
  assumes "x \<le> y"
  shows "rnd x \<le> rnd y"
proof -
  consider "0 < x" | "x \<le> 0" "0 \<le> y" | "y < 0"
    using assms by linarith
  then show ?thesis
  proof cases
    case 1
    then show ?thesis using assms by (rule rnd_mono_pos)
  next
    case 2
    have "rnd x \<le> 0"
      by (rule rnd_nonpos) (rule 2(1))
    moreover have "0 \<le> rnd y"
      by (rule rnd_nonneg) (rule 2(2))
    ultimately show ?thesis by simp
  next
    case 3
    with assms have "0 < - y" and "- y \<le> - x" by simp_all
    then have "rnd (- y) \<le> rnd (- x)"
      by (rule rnd_mono_pos)
    then show ?thesis by (simp add: rnd_minus)
  qed
qed

lemma rnd_fixed:
  assumes "x / quantum x = of_int n"
  shows "rnd x = x"
proof (cases "x = 0")
  case True
  then show ?thesis by (simp add: rnd_def)
next
  case False
  have "\<bar>x\<bar> / quantum x = \<bar>x / quantum x\<bar>"
    using quantum_pos [of x] by (simp add: abs_divide)
  also have "\<dots> = of_int \<bar>n\<bar>"
    by (simp add: assms)
  finally have "roundHalfEven (\<bar>x\<bar> / quantum x) = \<bar>n\<bar>"
    by (simp only: roundHalfEven_of_int)
  moreover have "\<bar>x\<bar> = of_int \<bar>n\<bar> * quantum x"
  proof -
    have "\<bar>x\<bar> = \<bar>x / quantum x\<bar> * quantum x"
      using quantum_pos [of x] by (simp add: abs_divide)
    then show ?thesis by (simp add: assms)
  qed
  ultimately have "rnd x = sgn x * \<bar>x\<bar>"
    using False by (simp add: rnd_def mult.assoc)
  then show ?thesis
    by (simp add: sgn_mult_abs)
qed

lemma pow2_div: "(2::rat) ^ n / 2 ^ k = 2 powi (int n - int k)"
  by (simp add: power_int_diff)

lemma rnd_dyadic:
  assumes m: "\<bar>m\<bar> < 2 ^ 53" and k: "k \<le> 1074"
  shows "rnd (of_int m / 2 ^ k) = of_int m / 2 ^ k"
proof (cases "m = 0")
  case True
  then show ?thesis by (simp add: rnd_def)
next
  case False
  define x :: rat where "x = of_int m / 2 ^ k"
  have nx: "x \<noteq> 0"
    using False by (simp add: x_def)
  let ?E = "max (expo x) (- 1022)"
  have "\<bar>x\<bar> = of_int \<bar>m\<bar> / 2 ^ k"
    by (simp add: x_def abs_divide)
  also have "\<dots> < of_int (2 ^ 53) / 2 ^ k"
    using m by (intro divide_strict_right_mono) (simp_all only: of_int_less_iff, simp)
  also have "\<dots> = 2 powi (53 - int k)"
    using pow2_div [of 53 k] by simp
  finally have "\<bar>x\<bar> < 2 powi (53 - int k)" .
  with expo_bounds(1) [OF nx] have "(2::rat) powi expo x < 2 powi (53 - int k)"
    by (rule le_less_trans)
  then have "expo x < 53 - int k"
    by (rule power_int_less_cancel)
  with k have E: "?E \<le> 52 - int k"
    by simp
  define j where "j = nat (52 - int k - ?E)"
  have j: "int j = 52 - int k - ?E"
    using E by (simp add: j_def)
  have a: "1 / (2::rat) ^ k = 2 powi (- int k)"
    by (simp add: power_int_minus_divide)
  have b: "1 / (2::rat) powi (?E - 52) = 2 powi (- (?E - 52))"
    by (simp only: power_int_minus_divide)
  have "x / quantum x = of_int m * ((1 / 2 ^ k) * (1 / 2 powi (?E - 52)))"
    by (simp add: x_def quantum_def)
  also have "\<dots> = of_int m * (2 powi (- int k) * 2 powi (- (?E - 52)))"
    by (simp only: a b)
  also have "(2::rat) powi (- int k) * 2 powi (- (?E - 52)) = 2 powi (- int k + - (?E - 52))"
    by (rule power_int_add [symmetric]) simp
  also have "- int k + - (?E - 52) = int j"
    using j by simp
  finally have "x / quantum x = of_int (m * 2 ^ j)"
    by simp
  then have "rnd x = x"
    by (rule rnd_fixed)
  then show ?thesis
    by (simp add: x_def)
qed

lemma rnd_of_int:
  assumes "\<bar>m\<bar> < 2 ^ 53"
  shows "rnd (of_int m) = of_int m"
  using rnd_dyadic [OF assms, of 0] by simp

lemma fl_between:
  assumes "f \<le> x" and "x \<le> g" and "rnd f = f" and "rnd g = g"
    and "\<bar>f\<bar> < 2 ^ 1024" and "\<bar>g\<bar> < 2 ^ 1024"
  shows "\<exists>v. fl x = Finite v \<and> f \<le> v \<and> v \<le> g"
proof -
  have "rnd f \<le> rnd x" and "rnd x \<le> rnd g"
    using assms(1,2) by (simp_all add: rnd_mono)
  then have lo: "f \<le> rnd x" and hi: "rnd x \<le> g"
    by (simp_all add: assms(3,4))
  from lo hi assms(5,6) have "rnd x < 2 ^ 1024" and "- (2 ^ 1024) < rnd x"
    by (simp_all add: abs_less_iff)
  then have "fl x = Finite (rnd x)"
    by (simp add: fl_def Let_def)
  with lo hi show ?thesis by simp
qed

lemma rnd_eval:
  assumes "2 powi e \<le> \<bar>x\<bar>" and "\<bar>x\<bar> < 2 powi (e + 1)" and "- 1022 \<le> e"
  shows "rnd x = sgn x * of_int (roundHalfEven (\<bar>x\<bar> / 2 powi (e - 52))) * 2 powi (e - 52)"
proof -
  have e: "expo x = e"
    by (rule expo_unique [OF assms(1,2)])
  have "(0::rat) < 2 powi e" by simp
  from this assms(1) have "0 < \<bar>x\<bar>" by (rule less_le_trans)
  then have "x \<noteq> 0" by simp
  then show ?thesis
    using assms(3) by (simp add: rnd_def quantum_def e)
qed

lemma fl_eval:
  assumes "2 powi e \<le> \<bar>x\<bar>" and "\<bar>x\<bar> < 2 powi (e + 1)" and "- 1022 \<le> e" and "e < 1023"
  shows "fl x = Finite (sgn x * of_int (roundHalfEven (\<bar>x\<bar> / 2 powi (e - 52))) * 2 powi (e - 52))"
proof -
  have e: "expo x = e"
    by (rule expo_unique [OF assms(1,2)])
  have "(0::rat) < 2 powi e" by simp
  from this assms(1) have "0 < \<bar>x\<bar>" by (rule less_le_trans)
  then have nx: "x \<noteq> 0" by simp
  have "\<bar>rnd x\<bar> \<le> 2 powi (max (expo x) (- 1022) + 1)"
    by (rule rnd_upper [OF nx])
  also have "(2::rat) powi (max (expo x) (- 1022) + 1) \<le> 2 powi 1023"
    using assms(3,4) by (intro power_int_increasing) (simp_all add: e)
  also have "(2::rat) powi 1023 < 2 powi 1024"
    by (intro power_int_strict_increasing) simp_all
  finally have "\<bar>rnd x\<bar> < 2 ^ 1024"
    by (simp only: power_int_numeral)
  then have "rnd x < 2 ^ 1024" and "- (2 ^ 1024) < rnd x"
    by (simp_all only: abs_less_iff) simp_all
  then have "fl x = Finite (rnd x)"
    by (simp add: fl_def Let_def)
  then show ?thesis
    by (simp only: rnd_eval [OF assms(1,2,3)])
qed


section \<open>Doubles on a grid: exact and enclosed sums\<close>

text \<open>A number that rounding leaves unchanged, within the finite range, is a double.\<close>

lemma fl_zero: "fl 0 = Finite 0"
  by (simp add: fl_def rnd_def)

lemma fl_exact:
  assumes "rnd x = x" and "\<bar>x\<bar> < 2 ^ 1024"
  shows "fl x = Finite x"
proof -
  from assms(2) have "x < 2 ^ 1024" and "- (2 ^ 1024) < x"
    by (simp_all only: abs_less_iff) simp_all
  then show ?thesis
    by (simp add: fl_def Let_def assms(1))
qed

text \<open>
  The multiples of \<open>2\<^sup>-\<^sup>k\<close> with a significand below \<open>2\<^sup>5\<^sup>3\<close> are doubles, and rounding
  keeps a number between two of them.
\<close>

lemma grid_fixed:
  assumes "onGrid k x" and "k \<le> 1074"
  shows "rnd x = x" and "\<bar>x\<bar> < 2 ^ 1024"
proof -
  define m where "m = \<lfloor>x * 2 ^ k\<rfloor>"
  from assms(1) have "of_int \<lfloor>x * 2 ^ k\<rfloor> = x * 2 ^ k" and small: "\<bar>x\<bar> * 2 ^ k < 2 ^ 53"
    unfolding onGrid_def by blast+
  then have xm: "x * 2 ^ k = of_int m"
    unfolding m_def by (simp only:)
  have x: "x = of_int m / 2 ^ k"
    using xm by (simp add: field_simps)
  have "\<bar>of_int m :: rat\<bar> = \<bar>x\<bar> * 2 ^ k"
    by (simp add: xm [symmetric] abs_mult)
  with small have "\<bar>of_int m :: rat\<bar> < of_int (2 ^ 53)"
    by simp
  then have "(of_int \<bar>m\<bar> :: rat) < of_int (2 ^ 53)"
    by simp
  then have m: "\<bar>m\<bar> < 2 ^ 53"
    by (simp only: of_int_less_iff)
  show "rnd x = x"
    unfolding x by (rule rnd_dyadic [OF m assms(2)])
  have "\<bar>x\<bar> * 1 \<le> \<bar>x\<bar> * 2 ^ k"
    by (intro mult_left_mono) simp_all
  with small have "\<bar>x\<bar> < 2 ^ 53"
    by simp
  also have "(2::rat) ^ 53 < 2 ^ 1024"
    by (intro power_strict_increasing) simp_all
  finally show "\<bar>x\<bar> < 2 ^ 1024" .
qed

lemma fl_grid:
  assumes "onGrid k x" and "k \<le> 1074"
  shows "fl x = Finite x"
  using grid_fixed [OF assms] by (rule fl_exact)

lemma fl_grid_between:
  assumes "f \<le> x" and "x \<le> g" and "onGrid k f" and "onGrid k g" and "k \<le> 1074"
  shows "\<exists>v. fl x = Finite v \<and> f \<le> v \<and> v \<le> g"
  using assms(1,2) grid_fixed [OF assms(3,5)] grid_fixed [OF assms(4,5)]
  by (intro fl_between) simp_all

lemma fl_numeral:
  assumes "(numeral n :: int) < 2 ^ 53"
  shows "fl (numeral n) = Finite (numeral n)"
proof -
  have "\<bar>numeral n :: int\<bar> < 2 ^ 53"
    using assms by simp
  then have "rnd (of_int (numeral n)) = of_int (numeral n)"
    by (rule rnd_of_int)
  then have r: "rnd (numeral n) = numeral n"
    by simp
  have "(of_int (numeral n) :: rat) < of_int (2 ^ 53)"
    using assms by (simp only: of_int_less_iff)
  then have "(numeral n :: rat) < 2 ^ 53"
    by simp
  also have "(2::rat) ^ 53 < 2 ^ 1024"
    by (intro power_strict_increasing) simp_all
  finally have "\<bar>numeral n :: rat\<bar> < 2 ^ 1024"
    by simp
  with r show ?thesis
    by (rule fl_exact)
qed

text \<open>Whole counts and grid points under sums and products.\<close>

lemma wholeCount_Ints: "wholeCount c \<Longrightarrow> c \<in> \<int>"
  by (metis Ints_of_int wholeCount_def)

lemma wholeCount_add: "wholeCount a \<Longrightarrow> wholeCount b \<Longrightarrow> wholeCount (a + b)"
proof -
  assume a: "wholeCount a" and b: "wholeCount b"
  then have "a + b \<in> \<int>"
    by (intro Ints_add wholeCount_Ints)
  then have "of_int \<lfloor>a + b\<rfloor> = a + b"
    by (rule Ints_cases) simp
  with a b show ?thesis
    by (simp add: wholeCount_def)
qed

lemma wholeCount_zero: "wholeCount 0"
  by (simp add: wholeCount_def)

lemma onGridI:
  assumes "x * 2 ^ k \<in> \<int>" and "\<bar>x\<bar> * 2 ^ k < 2 ^ 53"
  shows "onGrid k x"
proof -
  from assms(1) obtain n where "x * 2 ^ k = of_int n"
    by (rule Ints_cases)
  then have "of_int \<lfloor>x * 2 ^ k\<rfloor> = x * 2 ^ k"
    by simp
  with assms(2) show ?thesis
    unfolding onGrid_def by blast
qed

lemma sum_list_whole_nonneg:
  assumes "\<forall>item\<in>set data. wholeCount (c item)"
  shows "0 \<le> (\<Sum>item\<leftarrow>data. c item)"
  using assms by (intro sum_list_nonneg) (auto simp: wholeCount_def)

text \<open>The total of whole counts is exact as long as it stays below \<open>2\<^sup>5\<^sup>3\<close>.\<close>

lemma total_exact:
  fixes c :: "'a \<Rightarrow> rat"
  assumes "\<forall>item\<in>set data. wholeCount (c item)" and "wholeCount a"
    and "a + (\<Sum>item\<leftarrow>data. c item) < 2 ^ 53"
  shows "foldl (\<lambda>sum item. dadd sum (Finite (c item))) (Finite a) data
           = Finite (a + (\<Sum>item\<leftarrow>data. c item))"
  using assms
proof (induction data arbitrary: a)
  case Nil
  then show ?case by simp
next
  case (Cons x xs)
  have cx: "wholeCount (c x)" and rest: "\<forall>item\<in>set xs. wholeCount (c item)"
    using Cons.prems(1) by simp_all
  have w: "wholeCount (a + c x)"
    using Cons.prems(2) cx by (rule wholeCount_add)
  have nn: "0 \<le> (\<Sum>item\<leftarrow>xs. c item)"
    by (rule sum_list_whole_nonneg [OF rest])
  have small: "a + c x + (\<Sum>item\<leftarrow>xs. c item) < 2 ^ 53"
    using Cons.prems(3) by (simp add: add.assoc)
  have "onGrid 0 (a + c x)"
  proof (rule onGridI)
    show "(a + c x) * 2 ^ 0 \<in> \<int>"
      using wholeCount_Ints [OF w] by simp
    have "0 \<le> a + c x"
      using w by (simp add: wholeCount_def)
    with small nn show "\<bar>a + c x\<bar> * 2 ^ 0 < 2 ^ 53"
      by simp
  qed
  then have step: "fl (a + c x) = Finite (a + c x)"
    by (simp add: fl_grid)
  have "foldl (\<lambda>sum item. dadd sum (Finite (c item))) (Finite (a + c x)) xs
          = Finite (a + c x + (\<Sum>item\<leftarrow>xs. c item))"
    using rest w small by (rule Cons.IH)
  then show ?case
    by (simp add: step add.assoc)
qed


text \<open>A multiple of a grid point by a whole count is a grid point while it stays small.\<close>

lemma scaled_onGrid:
  assumes A: "A * 2 ^ k \<in> \<int>" and u: "wholeCount u" and M: "\<bar>A\<bar> \<le> M"
    and size: "M * 2 ^ k * u' < 2 ^ 53" and le: "u \<le> u'"
  shows "onGrid k (A * u)"
proof (rule onGridI)
  have "(A * 2 ^ k) * u \<in> \<int>"
    using A wholeCount_Ints [OF u] by (rule Ints_mult)
  then show "A * u * 2 ^ k \<in> \<int>"
    by (simp add: mult_ac)
  have u0: "0 \<le> u"
    using u by (simp add: wholeCount_def)
  have "\<bar>A\<bar> * 2 ^ k \<le> M * 2 ^ k"
    using M by (intro mult_right_mono) simp_all
  moreover have "0 \<le> M * 2 ^ k"
    using M by (intro mult_nonneg_nonneg) simp_all
  ultimately have "(\<bar>A\<bar> * 2 ^ k) * u \<le> (M * 2 ^ k) * u'"
    using le u0 by (intro mult_mono) simp_all
  from this size have "\<bar>A\<bar> * 2 ^ k * u < 2 ^ 53"
    by (rule le_less_trans)
  moreover have "\<bar>A * u\<bar> * 2 ^ k = \<bar>A\<bar> * 2 ^ k * u"
    using u0 by (simp add: abs_mult mult_ac)
  ultimately show "\<bar>A * u\<bar> * 2 ^ k < 2 ^ 53"
    by (simp only:)
qed

text \<open>
  The weighted total, formed in double arithmetic, stays between two grid bounds of the
  ratings times the total of the counts.
\<close>

lemma weighted_between:
  fixes r c :: "'a \<Rightarrow> rat"
  assumes counts: "\<forall>item\<in>set data. wholeCount (c item)"
    and lower: "\<forall>item\<in>set data. 0 < c item \<longrightarrow> A \<le> r item"
    and upper: "\<forall>item\<in>set data. 0 < c item \<longrightarrow> r item \<le> B"
    and A: "A * 2 ^ k \<in> \<int>" and B: "B * 2 ^ k \<in> \<int>" and k: "k \<le> 1074"
    and a: "wholeCount a"
    and S: "A * a \<le> S" "S \<le> B * a"
    and size: "(\<bar>A\<bar> + \<bar>B\<bar>) * 2 ^ k * (a + (\<Sum>item\<leftarrow>data. c item)) < 2 ^ 53"
  shows "\<exists>N. foldl (\<lambda>sum item. dadd sum (dmul (Finite (r item)) (Finite (c item))))
                (Finite S) data = Finite N
           \<and> A * (a + (\<Sum>item\<leftarrow>data. c item)) \<le> N
           \<and> N \<le> B * (a + (\<Sum>item\<leftarrow>data. c item))"
  using counts lower upper a S size
proof (induction data arbitrary: a S)
  case Nil
  then show ?case by simp
next
  case (Cons x xs)
  define rest where "rest = (\<Sum>item\<leftarrow>xs. c item)"
  define t where "t = a + c x"
  have cx: "wholeCount (c x)" and cs: "\<forall>item\<in>set xs. wholeCount (c item)"
    using Cons.prems(1) by simp_all
  have rest0: "0 \<le> rest"
    unfolding rest_def by (rule sum_list_whole_nonneg [OF cs])
  have a0: "0 \<le> a" and cx0: "0 \<le> c x"
    using Cons.prems(4) cx by (simp_all add: wholeCount_def)
  have t: "wholeCount t"
    unfolding t_def using Cons.prems(4) cx by (rule wholeCount_add)
  have size: "(\<bar>A\<bar> + \<bar>B\<bar>) * 2 ^ k * (t + rest) < 2 ^ 53"
    using Cons.prems(7) by (simp add: t_def rest_def add.assoc)
  have MA: "\<bar>A\<bar> \<le> \<bar>A\<bar> + \<bar>B\<bar>" and MB: "\<bar>B\<bar> \<le> \<bar>A\<bar> + \<bar>B\<bar>"
    by simp_all
  have le_c: "c x \<le> t + rest" and le_t: "t \<le> t + rest"
    using a0 rest0 by (simp_all add: t_def)
  have gAc: "onGrid k (A * c x)" and gBc: "onGrid k (B * c x)"
    and gAt: "onGrid k (A * t)" and gBt: "onGrid k (B * t)"
    by (rule scaled_onGrid [OF A cx MA size le_c], rule scaled_onGrid [OF B cx MB size le_c],
        rule scaled_onGrid [OF A t MA size le_t], rule scaled_onGrid [OF B t MB size le_t])
  have prod: "A * c x \<le> r x * c x \<and> r x * c x \<le> B * c x"
  proof (cases "0 < c x")
    case True
    with Cons.prems(2,3) have "A \<le> r x" and "r x \<le> B"
      by simp_all
    with cx0 show ?thesis
      by (simp add: mult_right_mono)
  next
    case False
    with cx0 have "c x = 0"
      by simp
    then show ?thesis
      by simp
  qed
  obtain P where P: "fl (r x * c x) = Finite P" "A * c x \<le> P" "P \<le> B * c x"
    using fl_grid_between [OF conjunct1 [OF prod] conjunct2 [OF prod] gAc gBc k] by blast
  have "A * t \<le> S + P" and "S + P \<le> B * t"
    using Cons.prems(5,6) P(2,3) by (simp_all add: t_def distrib_left)
  then obtain S' where S': "fl (S + P) = Finite S'" "A * t \<le> S'" "S' \<le> B * t"
    using fl_grid_between [OF _ _ gAt gBt k] by blast
  have "\<exists>N. foldl (\<lambda>sum item. dadd sum (dmul (Finite (r item)) (Finite (c item))))
               (Finite S') xs = Finite N
          \<and> A * (t + (\<Sum>item\<leftarrow>xs. c item)) \<le> N \<and> N \<le> B * (t + (\<Sum>item\<leftarrow>xs. c item))"
    using cs _ _ t S'(2,3)
  proof (rule Cons.IH)
    show "\<forall>item\<in>set xs. 0 < c item \<longrightarrow> A \<le> r item"
      using Cons.prems(2) by simp
    show "\<forall>item\<in>set xs. 0 < c item \<longrightarrow> r item \<le> B"
      using Cons.prems(3) by simp
    show "(\<bar>A\<bar> + \<bar>B\<bar>) * 2 ^ k * (t + (\<Sum>item\<leftarrow>xs. c item)) < 2 ^ 53"
      using size by (simp add: rest_def)
  qed
  then show ?case
    by (simp add: P(1) S'(1) t_def add.assoc)
qed


text \<open>
  \<^verbatim>\<open>parseFloat(x.toFixed(2))\<close> moves a double by little: it stays between two grid
  bounds \<open>6 / 1024\<close> beyond bounds of \<open>x\<close>.
\<close>

lemma hundredths_near:
  fixes q w :: rat
  assumes w_def: "w = (if q < 0 then - 1 else 1) * of_nat (nat \<lfloor>\<bar>q\<bar> * 100 + 1 / 2\<rfloor>) / 100"
  shows "q - 1 / 200 \<le> w" and "w \<le> q + 1 / 200"
proof -
  define n where "n = \<lfloor>\<bar>q\<bar> * 100 + 1 / 2\<rfloor>"
  have "0 \<le> \<bar>q\<bar> * 100 + 1 / 2"
    by simp
  then have n0: "0 \<le> n"
    unfolding n_def by (simp only: zero_le_floor)
  then have nat: "(of_nat (nat n) :: rat) = of_int n"
    by simp
  have "of_int n \<le> \<bar>q\<bar> * 100 + 1 / 2" and "\<bar>q\<bar> * 100 + 1 / 2 < of_int n + 1"
    unfolding n_def by linarith+
  then have near: "\<bar>q\<bar> - 1 / 200 \<le> of_int n / 100" "of_int n / 100 \<le> \<bar>q\<bar> + 1 / 200"
    by (simp_all add: field_simps)
  have w: "w = (if q < 0 then - (of_int n / 100) else of_int n / 100)"
    by (simp add: w_def n_def [symmetric] nat)
  show "q - 1 / 200 \<le> w" and "w \<le> q + 1 / 200"
    using near by (auto simp: w abs_if split: if_splits)
qed

lemma parse_toFixed_between:
  assumes "F \<le> q" and "q \<le> G"
    and "onGrid k (F - 6 / 1024)" and "onGrid k (G + 6 / 1024)" and "k \<le> 1074"
  shows "\<exists>v. parseFloat (toFixed2 (Finite q)) = Finite v \<and> F - 6 / 1024 \<le> v \<and> v \<le> G + 6 / 1024"
proof (cases "10 ^ 21 \<le> \<bar>q\<bar>")
  case True
  with assms(1,2) show ?thesis
    by simp
next
  case False
  define w :: rat
    where "w = (if q < 0 then - 1 else 1) * of_nat (nat \<lfloor>\<bar>q\<bar> * 100 + 1 / 2\<rfloor>) / 100"
  have "q - 1 / 200 \<le> w" and "w \<le> q + 1 / 200"
    by (rule hundredths_near [OF w_def])+
  with assms(1,2) have "F - 6 / 1024 \<le> w" and "w \<le> G + 6 / 1024"
    by simp_all
  then have "\<exists>v. fl w = Finite v \<and> F - 6 / 1024 \<le> v \<and> v \<le> G + 6 / 1024"
    using assms(3,4,5) by (rule fl_grid_between)
  with False show ?thesis
    by (simp add: w_def)
qed

lemma fl_one: "fl 1 = Finite 1"
  using rnd_of_int [of 1] by (simp add: fl_exact)

text \<open>
  A sum of numbers that are not negative and lie on a grid is exact while it stays
  small.
\<close>

lemma sum_exact:
  fixes f :: "'a \<Rightarrow> rat"
  assumes "\<forall>item\<in>set data. 0 \<le> f item \<and> f item * 2 ^ k \<in> \<int>"
    and "0 \<le> a" and "a * 2 ^ k \<in> \<int>"
    and "(a + (\<Sum>item\<leftarrow>data. f item)) * 2 ^ k < 2 ^ 53" and "k \<le> 1074"
  shows "foldl (\<lambda>sum item. dadd sum (Finite (f item))) (Finite a) data
           = Finite (a + (\<Sum>item\<leftarrow>data. f item))"
  using assms
proof (induction data arbitrary: a)
  case Nil
  then show ?case by simp
next
  case (Cons x xs)
  define rest where "rest = (\<Sum>item\<leftarrow>xs. f item)"
  have x: "0 \<le> f x" "f x * 2 ^ k \<in> \<int>"
    and xs: "\<forall>item\<in>set xs. 0 \<le> f item \<and> f item * 2 ^ k \<in> \<int>"
    using Cons.prems(1) by simp_all
  have rest0: "0 \<le> rest"
    unfolding rest_def using xs by (intro sum_list_nonneg) auto
  have size: "(a + f x + rest) * 2 ^ k < 2 ^ 53"
    using Cons.prems(4) by (simp add: rest_def add.assoc)
  have I: "(a + f x) * 2 ^ k \<in> \<int>"
    using Ints_add [OF Cons.prems(3) x(2)] by (simp add: distrib_right)
  have "(a + f x) * 2 ^ k \<le> (a + f x + rest) * 2 ^ k"
    using rest0 by (simp add: mult_right_mono)
  from this size have "(a + f x) * 2 ^ k < 2 ^ 53"
    by (rule le_less_trans)
  moreover have "\<bar>a + f x\<bar> = a + f x"
    using Cons.prems(2) x(1) by simp
  ultimately have "\<bar>a + f x\<bar> * 2 ^ k < 2 ^ 53"
    by (simp only:)
  with I have "onGrid k (a + f x)"
    by (rule onGridI)
  then have step: "fl (a + f x) = Finite (a + f x)"
    using Cons.prems(5) by (rule fl_grid)
  have "foldl (\<lambda>sum item. dadd sum (Finite (f item))) (Finite (a + f x)) xs
          = Finite (a + f x + (\<Sum>item\<leftarrow>xs. f item))"
    using xs _ I _ Cons.prems(5)
  proof (rule Cons.IH)
    show "0 \<le> a + f x"
      using Cons.prems(2) x(1) by simp
    show "(a + f x + (\<Sum>item\<leftarrow>xs. f item)) * 2 ^ k < 2 ^ 53"
      using size by (simp add: rest_def)
  qed
  then show ?case
    by (simp add: step add.assoc)
qed


section \<open>The summary aggregator\<close>

text \<open>\<^verbatim>\<open>summary\<close> in closed form, the sums as sums of lists; the empty batch fits it.\<close>

lemma summary_eq:
  "summary data =
     \<lparr>avgRating =
        (if gt0 (sumInOrder (map (\<lambda>item. Finite (orZero (count item))) data))
         then parseFloat (toFixed2 (spec_weightedAverage data)) else Finite 0),
      totalReviews = sumInOrder (map (\<lambda>item. Finite (orZero (count item))) data),
      sourceCount = length data\<rparr>"
  by (cases data)
    (simp_all add: summary_def Let_def sumInOrder_def spec_weightedAverage_def foldl_map
      fl_zero)

lemma total_sumInOrder:
  assumes "\<forall>item\<in>set data. wholeCount (orZero (count item))"
    and "(\<Sum>item\<leftarrow>data. orZero (count item)) < 2 ^ 53"
  shows "sumInOrder (map (\<lambda>item. Finite (orZero (count item))) data)
           = Finite (\<Sum>item\<leftarrow>data. orZero (count item))"
  using total_exact [of data "\<lambda>item. orZero (count item)" 0] assms
  by (simp add: sumInOrder_def foldl_map wholeCount_zero)

text \<open>Evaluating a rounding whose exponent is given.\<close>

lemmas fl_evals = fl_eval [of "- 1"] fl_eval [of 0] fl_eval [of 1] fl_eval [of 2] fl_eval [of 3]
  fl_eval [of 4] fl_eval [of 5] fl_eval [of 6] fl_eval [of 7] fl_eval [of 8] fl_zero fl_one
  fl_numeral

lemmas rnd_evals = rnd_eval [of "- 1"] rnd_eval [of 0] rnd_eval [of 1] rnd_eval [of 2]
  rnd_eval [of 3] rnd_eval [of 4]



text \<open>
  C4.  For every batch whose total of reviews, as the summary computes it, is not
  positive, the summary's weighted average rating is exactly \<open>0\<close>; the empty batch is
  one of them.  For every batch whose counts are not negative and sum to \<open>0\<close>, the total
  of reviews and the weighted average rating are both exactly \<open>0\<close>.
\<close>

theorem summary_zero_total:
  "(\<not> gt0 (totalReviews (summary data)) \<longrightarrow> avgRating (summary data) = Finite 0)
   \<and> ((\<forall>item\<in>set data. 0 \<le> orZero (count item)) \<and> (\<Sum>item\<leftarrow>data. orZero (count item)) = 0 \<longrightarrow>
        avgRating (summary data) = Finite 0 \<and> totalReviews (summary data) = Finite 0)
   \<and> avgRating (summary []) = Finite 0 \<and> totalReviews (summary []) = Finite 0"
proof (intro conjI impI)
  show "avgRating (summary data) = Finite 0" if "\<not> gt0 (totalReviews (summary data))"
    using that by (simp add: summary_eq)
  show "avgRating (summary []) = Finite 0" and "totalReviews (summary []) = Finite 0"
    by (simp_all add: summary_def)
next
  assume h: "(\<forall>item\<in>set data. 0 \<le> orZero (count item))
               \<and> (\<Sum>item\<leftarrow>data. orZero (count item)) = 0"
  then have "\<forall>x\<in>set (map (\<lambda>item. orZero (count item)) data). x = 0"
    by (subst sum_list_nonneg_eq_0_iff [symmetric]) auto
  then have "\<forall>item\<in>set data. wholeCount (orZero (count item))"
    by (simp add: wholeCount_def)
  then have total: "sumInOrder (map (\<lambda>item. Finite (orZero (count item))) data) = Finite 0"
    using h by (simp add: total_sumInOrder)
  then show "avgRating (summary data) = Finite 0" and "totalReviews (summary data) = Finite 0"
    by (simp_all add: summary_eq)
qed

theorem summary_zero_total_witness:
  "avgRating (summary [scenario ! 2, scenario ! 2]) = Finite 0
   \<and> totalReviews (summary [scenario ! 2, scenario ! 2]) = Finite 0
   \<and> avgRating (summary []) = Finite 0 \<and> totalReviews (summary []) = Finite 0"
  using summary_zero_total [of "[scenario ! 2, scenario ! 2]"] summary_zero_total [of "[]"]
  by (simp add: scenario_def orZero_def)

text \<open>
  C6, as stated: with at least one record of positive count, the summary's weighted
  average rating lies between the least and the greatest rating of the records of
  positive count.  The summary holds the average rounded to two decimals, and rounding
  can leave the interval: a single source rated \<^verbatim>\<open>4.333\<close> is summarised as \<^verbatim>\<open>4.33\<close>.
  Two sources both rated \<^verbatim>\<open>3.245\<close>, with counts \<open>1\<close> and \<open>2\<close>, are summarised as
  \<^verbatim>\<open>3.24\<close>: the mean of the doubles falls below the rating, and the value is below
  even the rating rounded to two decimals, \<^verbatim>\<open>3.25\<close>.
\<close>

theorem summary_average_below_min:
  "avgRating (summary fineRating) = fl (433 / 100)
   \<and> finiteWithin 4 (4331 / 1000) (avgRating (summary fineRating))
   \<and> finiteWithin (4332 / 1000) 5 (Finite (Min (set (ratedRatings fineRating))))
   \<and> \<not> finiteWithin (Min (set (ratedRatings fineRating))) (Max (set (ratedRatings fineRating)))
         (avgRating (summary fineRating))
   \<and> avgRating (summary sameRating) = fl (324 / 100)
   \<and> finiteWithin 3 (3241 / 1000) (avgRating (summary sameRating))
   \<and> finiteWithin (3244 / 1000) 4 (Finite (Min (set (ratedRatings sameRating))))
   \<and> parseFloat (toFixed2 (Finite (Min (set (ratedRatings sameRating))))) = Finite (325 / 100)
   \<and> \<not> finiteWithin (Min (set (ratedRatings sameRating))) (Max (set (ratedRatings sameRating)))
         (avgRating (summary sameRating))"
  by (simp add: fineRating_def sameRating_def ratedRatings_def summary_def orZero_def Let_def
      finiteWithin_def fl_evals rnd_evals roundHalfEven_def)

text \<open>
  C6, amended.  For every batch whose counts are whole numbers, not negative, with a
  total below \<open>2\<^sup>3\<^sup>2\<close>, in which at least one record has a positive count and the
  ratings of the records of positive count are at most \<open>1000\<close> in magnitude, the
  summary's weighted average rating is a finite number that lies between the least and
  the greatest of these ratings up to one hundredth: not below the least rating minus
  \<open>0.01\<close> and not above the greatest rating plus \<open>0.01\<close>.
\<close>

theorem summary_average_bounded:
  assumes counts: "\<forall>item\<in>set data. wholeCount (orZero (count item))"
    and total: "(\<Sum>item\<leftarrow>data. orZero (count item)) < 2 ^ 32"
    and rated: "ratedRatings data \<noteq> []"
    and range: "\<forall>r\<in>set (ratedRatings data). \<bar>r\<bar> \<le> 1000"
  shows "finiteWithin (Min (set (ratedRatings data)) - 1 / 100)
           (Max (set (ratedRatings data)) + 1 / 100) (avgRating (summary data))"
proof -
  let ?R = "set (ratedRatings data)"
  define lo hi where "lo = Min ?R" and "hi = Max ?R"
  define C where "C = (\<Sum>item\<leftarrow>data. orZero (count item))"
  define A B :: rat where "A = of_int \<lfloor>1024 * lo\<rfloor> / 1024" and "B = of_int \<lceil>1024 * hi\<rceil> / 1024"
  have fin: "finite ?R" and ne: "?R \<noteq> {}"
    using rated by simp_all
  have "lo \<in> ?R" and "hi \<in> ?R"
    unfolding lo_def hi_def using fin ne by (rule Min_in, intro Max_in)
  with range have lo: "- 1000 \<le> lo" "lo \<le> 1000" and hi: "- 1000 \<le> hi" "hi \<le> 1000"
    by (auto simp: abs_le_iff)
  have mem: "lo \<le> orZero (rating item) \<and> orZero (rating item) \<le> hi"
    if "item \<in> set data" "0 < orZero (count item)" for item
  proof -
    from that have "orZero (rating item) \<in> ?R"
      by (auto simp: ratedRatings_def)
    then show ?thesis
      unfolding lo_def hi_def using fin by (simp add: Min_le Max_ge)
  qed
  have "- 1024000 \<le> \<lfloor>1024 * lo\<rfloor>" and "\<lfloor>1024 * lo\<rfloor> \<le> 1024000"
    and "- 1024000 \<le> \<lceil>1024 * hi\<rceil>" and "\<lceil>1024 * hi\<rceil> \<le> 1024000"
    using lo hi by (simp_all add: le_floor_iff floor_le_iff ceiling_le_iff le_ceiling_iff)
  then have "of_int (- 1024000) \<le> (of_int \<lfloor>1024 * lo\<rfloor> :: rat)"
    and "(of_int \<lfloor>1024 * lo\<rfloor> :: rat) \<le> of_int 1024000"
    and "of_int (- 1024000) \<le> (of_int \<lceil>1024 * hi\<rceil> :: rat)"
    and "(of_int \<lceil>1024 * hi\<rceil> :: rat) \<le> of_int 1024000"
    by (simp_all only: of_int_le_iff)
  then have fa: "- 1024000 \<le> (of_int \<lfloor>1024 * lo\<rfloor> :: rat)" "(of_int \<lfloor>1024 * lo\<rfloor> :: rat) \<le> 1024000"
    and cb: "- 1024000 \<le> (of_int \<lceil>1024 * hi\<rceil> :: rat)" "(of_int \<lceil>1024 * hi\<rceil> :: rat) \<le> 1024000"
    by simp_all
  have A_le: "A \<le> lo" and A_gt: "lo - 1 / 1024 < A"
    unfolding A_def by (simp_all add: field_simps) linarith+
  have B_ge: "hi \<le> B" and B_lt: "B < hi + 1 / 1024"
    unfolding B_def by (simp_all add: field_simps) linarith+
  have A_abs: "\<bar>A\<bar> \<le> 1000" and B_abs: "\<bar>B\<bar> \<le> 1000"
    using fa cb unfolding A_def B_def by (simp_all add: abs_le_iff)
  have A_int: "A * 2 ^ 10 = of_int \<lfloor>1024 * lo\<rfloor>" and B_int: "B * 2 ^ 10 = of_int \<lceil>1024 * hi\<rceil>"
    by (simp_all add: A_def B_def)
  have AI: "A * 2 ^ 10 \<in> \<int>" and BI: "B * 2 ^ 10 \<in> \<int>"
    unfolding A_int B_int by simp_all
  from rated obtain y where y: "y \<in> set data" "0 < orZero (count y)"
    by (auto simp: ratedRatings_def filter_empty_conv)
  have nonneg: "\<forall>item\<in>set data. 0 \<le> orZero (count item)"
    using counts by (simp add: wholeCount_def)
  have "orZero (count y) \<le> C"
    unfolding C_def using y(1) nonneg by (intro member_le_sum_list) auto
  with y(2) have C_pos: "0 < C"
    by simp
  have C32: "C < 2 ^ 32"
    using total by (simp add: C_def)
  then have C53: "C < 2 ^ 53"
    by simp
  have tot: "sumInOrder (map (\<lambda>item. Finite (orZero (count item))) data) = Finite C"
    unfolding C_def using counts C53 [unfolded C_def] by (rule total_sumInOrder)
  have "(\<bar>A\<bar> + \<bar>B\<bar>) * 2 ^ 10 * C \<le> (2000 * 2 ^ 10) * 2 ^ 32"
    using A_abs B_abs C_pos C32 by (intro mult_mono) simp_all
  also have "\<dots> < (2 ^ 53 :: rat)"
    by simp
  finally have size: "(\<bar>A\<bar> + \<bar>B\<bar>) * 2 ^ 10 * (0 + C) < 2 ^ 53"
    by simp
  have "\<exists>N. foldl (\<lambda>sum item. dadd sum (dmul (Finite (orZero (rating item)))
                                            (Finite (orZero (count item)))))
               (Finite 0) data = Finite N
          \<and> A * (0 + (\<Sum>item\<leftarrow>data. orZero (count item))) \<le> N
          \<and> N \<le> B * (0 + (\<Sum>item\<leftarrow>data. orZero (count item)))"
    using counts _ _ AI BI _ wholeCount_zero
  proof (rule weighted_between)
    show "\<forall>item\<in>set data. 0 < orZero (count item) \<longrightarrow> A \<le> orZero (rating item)"
      using mem A_le by fastforce
    show "\<forall>item\<in>set data. 0 < orZero (count item) \<longrightarrow> orZero (rating item) \<le> B"
      using mem B_ge by fastforce
    show "(\<bar>A\<bar> + \<bar>B\<bar>) * 2 ^ 10 * (0 + (\<Sum>item\<leftarrow>data. orZero (count item))) < 2 ^ 53"
      using size by (simp only: C_def)
  qed simp_all
  then obtain N where N:
    "sumInOrder (map (\<lambda>item. dmul (Finite (orZero (rating item))) (Finite (orZero (count item))))
       data) = Finite N"
    "A * C \<le> N" "N \<le> B * C"
    by (auto simp: sumInOrder_def foldl_map C_def)
  have gA: "onGrid 10 A" and gB: "onGrid 10 B"
    using AI BI A_abs B_abs by (auto intro!: onGridI)
  have "A \<le> N / C" and "N / C \<le> B"
    using N(2,3) C_pos by (simp_all add: pos_le_divide_eq pos_divide_le_eq)
  then obtain q where q: "fl (N / C) = Finite q" "A \<le> q" "q \<le> B"
    using fl_grid_between [OF _ _ gA gB] by auto
  have "(A - 6 / 1024) * 2 ^ 10 = of_int (\<lfloor>1024 * lo\<rfloor> - 6)"
    and "(B + 6 / 1024) * 2 ^ 10 = of_int (\<lceil>1024 * hi\<rceil> + 6)"
    by (simp_all add: A_def B_def field_simps)
  then have "(A - 6 / 1024) * 2 ^ 10 \<in> \<int>" and "(B + 6 / 1024) * 2 ^ 10 \<in> \<int>"
    by (simp_all only: Ints_of_int)
  moreover have "\<bar>A - 6 / 1024\<bar> \<le> 1001" and "\<bar>B + 6 / 1024\<bar> \<le> 1001"
    using A_abs B_abs by (simp_all add: abs_le_iff)
  then have "\<bar>A - 6 / 1024\<bar> * 2 ^ 10 < 2 ^ 53" and "\<bar>B + 6 / 1024\<bar> * 2 ^ 10 < 2 ^ 53"
    by simp_all
  ultimately have "onGrid 10 (A - 6 / 1024)" and "onGrid 10 (B + 6 / 1024)"
    by (simp_all add: onGridI)
  with q(2,3) obtain v where v: "parseFloat (toFixed2 (Finite q)) = Finite v"
      "A - 6 / 1024 \<le> v" "v \<le> B + 6 / 1024"
    using parse_toFixed_between [of A q B 10] by auto
  have "spec_weightedAverage data = Finite q"
    using C_pos q(1) by (simp only: spec_weightedAverage_def tot N(1) C_def [symmetric]) simp
  then have "avgRating (summary data) = Finite v"
    using C_pos v(1) by (simp add: summary_eq tot)
  moreover have "lo - 1 / 100 \<le> v" and "v \<le> hi + 1 / 100"
    using v(2,3) A_gt B_lt by simp_all
  ultimately show ?thesis
    by (simp add: finiteWithin_def lo_def hi_def)
qed

theorem summary_average_bounded_witness:
  "finiteWithin (rnd (3245 / 1000) - 1 / 100) (rnd (3245 / 1000) + 1 / 100)
     (avgRating (summary sameRating))
   \<and> finiteWithin (4 - 1 / 100) (5 + 1 / 100) (avgRating (summary scenario))"
  using summary_average_bounded [of sameRating] summary_average_bounded [of scenario]
  by (simp add: sameRating_def scenario_def ratedRatings_def orZero_def wholeCount_def
      rnd_evals roundHalfEven_def)


section \<open>The distribution combiner\<close>

text \<open>
  One entry adds its value to the accumulator named by the first character of its key,
  when there is such an accumulator; the accumulators never appear or disappear.
\<close>

lemma addEntry_eq:
  "addEntry entry m =
     (\<lambda>k. case m k of
            None \<Rightarrow> None
          | Some c \<Rightarrow> Some (c + (if charAt (fst entry) 0 = k then snd entry else 0)))"
  by (auto simp: addEntry_def Let_def fun_eq_iff split: option.splits)

lemma fold_addEntry:
  "fold addEntry d m =
     (\<lambda>k. case m k of None \<Rightarrow> None | Some c \<Rightarrow> Some (c + entryTotal k d))"
proof (induction d arbitrary: m)
  case Nil
  show ?case by (auto simp: entryTotal_def fun_eq_iff split: option.splits)
next
  case (Cons e d)
  have "fold addEntry (e # d) m = fold addEntry d (addEntry e m)"
    by simp
  also have "\<dots> =
      (\<lambda>k. case addEntry e m k of None \<Rightarrow> None | Some c \<Rightarrow> Some (c + entryTotal k d))"
    by (rule Cons.IH)
  also have "\<dots> =
      (\<lambda>k. case m k of None \<Rightarrow> None | Some c \<Rightarrow> Some (c + entryTotal k (e # d)))"
    by (auto simp: addEntry_eq [of e m] entryTotal_def fun_eq_iff split: option.splits)
  finally show ?case .
qed

lemma addSource_eq:
  "addSource item m =
     (\<lambda>k. case m k of None \<Rightarrow> None | Some c \<Rightarrow> Some (c + recordTotal k item))"
  by (auto simp: addSource_def recordTotal_def fold_addEntry fun_eq_iff split: option.splits)

lemma fold_addSource:
  "fold addSource data m =
     (\<lambda>k. case m k of
            None \<Rightarrow> None
          | Some c \<Rightarrow> Some (c + (\<Sum>item\<leftarrow>data. recordTotal k item)))"
proof (induction data arbitrary: m)
  case Nil
  show ?case by (auto simp: fun_eq_iff split: option.splits)
next
  case (Cons item data)
  have "fold addSource (item # data) m = fold addSource data (addSource item m)"
    by simp
  also have "\<dots> =
      (\<lambda>k. case addSource item m k of
             None \<Rightarrow> None
           | Some c \<Rightarrow> Some (c + (\<Sum>item\<leftarrow>data. recordTotal k item)))"
    by (rule Cons.IH)
  also have "\<dots> =
      (\<lambda>k. case m k of
             None \<Rightarrow> None
           | Some c \<Rightarrow> Some (c + (\<Sum>item\<leftarrow>item # data. recordTotal k item)))"
    by (auto simp: addSource_eq [of item m] fun_eq_iff split: option.splits)
  finally show ?case .
qed

lemma combined_dom:
  "dom (fold addSource data combined_init) = set buckets"
  by (auto simp: fold_addSource combined_init_def buckets_def dom_def split: option.splits if_splits)

text \<open>The combined distribution in closed form.\<close>

lemma ratingDistributionData_eq:
  "ratingDistributionData data =
     [(5, \<Sum>item\<leftarrow>data. recordTotal ''5'' item),
      (4, \<Sum>item\<leftarrow>data. recordTotal ''4'' item),
      (3, \<Sum>item\<leftarrow>data. recordTotal ''3'' item),
      (2, \<Sum>item\<leftarrow>data. recordTotal ''2'' item),
      (1, \<Sum>item\<leftarrow>data. recordTotal ''1'' item)]"
  by (simp add: ratingDistributionData_def Let_def fold_addSource combined_init_def)
















section \<open>The filter projectors\<close>

text \<open>Evaluating a character given by its code.\<close>

lemma char_eq_char_of:
  "c = char_of (n::nat) \<longleftrightarrow> take_bit 8 n = of_char c"
  using char_of_eq_iff [of n c] by auto

text \<open>
  When lower-casing acts on each code unit by itself, the test of the code, containment
  of the lowered query in the lowered text, is containment up to letter case.
\<close>

lemma ciContains_code:
  assumes "\<forall>s. toLowerCase s = map unit s"
  shows "spec_ciContains toLowerCase text query
           \<longleftrightarrow> includes_str (toLowerCase text) (toLowerCase query)"
proof
  assume "spec_ciContains toLowerCase text query"
  then obtain s where s: "sublist s text" "toLowerCase s = toLowerCase query"
    by (auto simp: spec_ciContains_def)
  have "sublist (map unit s) (map unit text)"
    using s(1) by (rule map_mono_sublist)
  moreover have "map unit s = map unit query"
    using s(2) assms by simp
  ultimately have "sublist (map unit query) (map unit text)"
    by (simp only:)
  then show "includes_str (toLowerCase text) (toLowerCase query)"
    using assms by (simp add: includes_str_def)
next
  assume "includes_str (toLowerCase text) (toLowerCase query)"
  then have "sublist (map unit query) (map unit text)"
    using assms by (simp add: includes_str_def)
  then obtain s where "sublist s text" "map unit query = map unit s"
    by (rule sublist_map_rightE [THEN exE]) blast
  then show "spec_ciContains toLowerCase text query"
    using assms by (auto simp: spec_ciContains_def)
qed

text \<open>A callback that never throws makes \<open>filterE\<close> the list filter.\<close>

lemma filterE_total:
  assumes "\<And>x. x \<in> set xs \<Longrightarrow> p x = Inr (q x)"
  shows "filterE p xs = Inr (filter q xs)"
  using assms by (induction xs) simp_all

text \<open>Filtering what a successful call returned gives the same list.\<close>

lemma filterE_idem:
  "filterE p xs = Inr ys \<Longrightarrow> filterE p ys = Inr ys"
proof (induction xs arbitrary: ys)
  case Nil
  then show ?case by simp
next
  case (Cons x xs)
  then show ?case
    by (auto split: sum.splits if_splits)
qed

lemma filteredReviews_eq:
  assumes "\<forall>review\<in>set data. source review \<noteq> None"
  shows "filteredReviews toLowerCase searchTerm data =
           Inr (if searchTerm = [] then data
                else filter (\<lambda>review. includes_str (toLowerCase (the (source review)))
                                        (toLowerCase searchTerm)) data)"
proof (cases "searchTerm = []")
  case True
  then show ?thesis
    by (simp add: filteredReviews_def)
next
  case False
  then show ?thesis
    unfolding filteredReviews_def
    by (simp only: if_False) (rule filterE_total, use assms in auto)
qed

lemma filteredData_eq:
  assumes "\<forall>item\<in>set data. name item \<noteq> None \<and> category item \<noteq> None"
  shows "filteredData toLowerCase searchTerm data =
           Inr (if searchTerm = [] then data
                else filter (\<lambda>item. includes_str (toLowerCase (the (name item)))
                                       (toLowerCase searchTerm)
                                   \<or> includes_str (toLowerCase (the (category item)))
                                       (toLowerCase searchTerm)) data)"
proof (cases "searchTerm = []")
  case True
  then show ?thesis
    by (simp add: filteredData_def)
next
  case False
  then show ?thesis
    unfolding filteredData_def
    by (simp only: if_False) (rule filterE_total, use assms in auto)
qed

text \<open>The empty query is contained in every text.\<close>

lemma ciContains_empty: "spec_ciContains toLowerCase text []"
  unfolding spec_ciContains_def by (rule exI [of _ "[]"]) simp

text \<open>
  C3, as stated: a query of white space only returns the full set.  The code tests
  \<^verbatim>\<open>!searchTerm\<close>, which holds for the empty string only, so a query of one or two
  spaces is looked for like any other and removes every record without it.
\<close>

theorem filter_whitespace_query:
  "filteredReviews lowerLatin1 '' '' sites = Inr []
   \<and> filteredReviews lowerLatin1 '' '' sites \<noteq> Inr sites
   \<and> filteredData lowerLatin1 ''  '' shops = Inr []
   \<and> filteredData lowerLatin1 ''  '' shops \<noteq> Inr shops"
  by (simp add: filteredReviews_def filteredData_def sites_def shops_def bare_def business_def
      includes_str_def lowerLatin1_def lowerUnit_def char_of_eq_iff char_eq_char_of
      sublist_Cons_right)

text \<open>
  C3, amended.  For every batch whose records have their searchable text and every
  query, the filter returns the batch unchanged when the query is the empty string, and
  otherwise the records, in their original order, whose lower-cased source (for a
  business: whose lower-cased name or category) contains the lower-cased query; a query
  of white space is matched literally like any other.  This holds for every lower-casing
  function; when it acts on each code unit by itself, the records returned are those
  whose text contains the query as a case-insensitive substring.
\<close>

theorem filter_case_insensitive:
  assumes "\<forall>review\<in>set reviews'. source review \<noteq> None"
    and "\<forall>item\<in>set businesses. name item \<noteq> None \<and> category item \<noteq> None"
  shows "filteredReviews toLowerCase searchTerm reviews' =
           Inr (if searchTerm = [] then reviews'
                else filter (\<lambda>review. includes_str (toLowerCase (the (source review)))
                                        (toLowerCase searchTerm)) reviews')
       \<and> filteredData toLowerCase searchTerm businesses =
           Inr (if searchTerm = [] then businesses
                else filter (\<lambda>item. includes_str (toLowerCase (the (name item)))
                                       (toLowerCase searchTerm)
                                   \<or> includes_str (toLowerCase (the (category item)))
                                       (toLowerCase searchTerm)) businesses)
       \<and> ((\<forall>s. toLowerCase s = map unit s) \<longrightarrow>
            filteredReviews toLowerCase searchTerm reviews' =
              Inr (filter (\<lambda>review. spec_ciContains toLowerCase (the (source review)) searchTerm)
                     reviews')
            \<and> filteredData toLowerCase searchTerm businesses =
              Inr (filter (\<lambda>item. spec_ciContains toLowerCase (the (name item)) searchTerm
                                 \<or> spec_ciContains toLowerCase (the (category item)) searchTerm)
                     businesses))"
proof (intro conjI impI)
  show "filteredReviews toLowerCase searchTerm reviews' =
           Inr (if searchTerm = [] then reviews'
                else filter (\<lambda>review. includes_str (toLowerCase (the (source review)))
                                        (toLowerCase searchTerm)) reviews')"
    by (rule filteredReviews_eq [OF assms(1)])
  show "filteredData toLowerCase searchTerm businesses =
           Inr (if searchTerm = [] then businesses
                else filter (\<lambda>item. includes_str (toLowerCase (the (name item)))
                                       (toLowerCase searchTerm)
                                   \<or> includes_str (toLowerCase (the (category item)))
                                       (toLowerCase searchTerm)) businesses)"
    by (rule filteredData_eq [OF assms(2)])
next
  assume unit: "\<forall>s. toLowerCase s = map unit s"
  show "filteredReviews toLowerCase searchTerm reviews' =
          Inr (filter (\<lambda>review. spec_ciContains toLowerCase (the (source review)) searchTerm)
                 reviews')"
    by (cases "searchTerm = []")
      (simp_all add: filteredReviews_eq [OF assms(1)] ciContains_code [OF unit]
        ciContains_empty)
  show "filteredData toLowerCase searchTerm businesses =
          Inr (filter (\<lambda>item. spec_ciContains toLowerCase (the (name item)) searchTerm
                             \<or> spec_ciContains toLowerCase (the (category item)) searchTerm)
                 businesses)"
    by (cases "searchTerm = []")
      (simp_all add: filteredData_eq [OF assms(2)] ciContains_code [OF unit]
        ciContains_empty)
qed

theorem filter_case_insensitive_witness:
  "filteredReviews lowerLatin1 ''a'' sites = Inr [bare ''Agoda'', bare ''TripAdvisor'']
   \<and> filteredData lowerLatin1 ''CAFE'' shops = Inr [business ''Cafe Mercara'' ''Cafe'' 5 50]
   \<and> filteredData lowerLatin1 [CHR 0xE9] accented = Inr [business (''CAF'' @ [CHR 0xC9]) ''Coffee'' 4 10]
   \<and> filteredReviews lowerLatin1 [] sites = Inr sites
   \<and> filteredData lowerLatin1 [] shops = Inr shops"
  using filter_case_insensitive [of sites shops lowerLatin1 "''a''" lowerUnit]
    filter_case_insensitive [of sites shops lowerLatin1 "''CAFE''" lowerUnit]
    filter_case_insensitive [of sites accented lowerLatin1 "[CHR 0xE9]" lowerUnit]
    filter_case_insensitive [of sites shops lowerLatin1 "[]" lowerUnit]
  by (simp add: sites_def shops_def accented_def bare_def business_def includes_str_def
      lowerLatin1_def lowerUnit_def char_of_eq_iff char_eq_char_of sublist_Cons_right)

text \<open>
  C9.  For every batch and every query, filtering with the empty query returns the
  batch itself, and filtering the result of a filter again with the same query returns
  that result; both filters, whatever the lower-casing function.
\<close>

theorem filter_identity_idempotent:
  "filteredReviews toLowerCase [] reviews' = Inr reviews'
   \<and> filteredData toLowerCase [] businesses = Inr businesses
   \<and> (filteredReviews toLowerCase searchTerm reviews' = Inr shown
          \<longrightarrow> filteredReviews toLowerCase searchTerm shown = Inr shown)
   \<and> (filteredData toLowerCase searchTerm businesses = Inr listed
          \<longrightarrow> filteredData toLowerCase searchTerm listed = Inr listed)"
proof (intro conjI impI)
  show "filteredReviews toLowerCase [] reviews' = Inr reviews'"
    by (simp add: filteredReviews_def)
  show "filteredData toLowerCase [] businesses = Inr businesses"
    by (simp add: filteredData_def)
next
  assume first: "filteredReviews toLowerCase searchTerm reviews' = Inr shown"
  show "filteredReviews toLowerCase searchTerm shown = Inr shown"
  proof (cases "searchTerm = []")
    case True
    then show ?thesis by (simp add: filteredReviews_def)
  next
    case False
    with first show ?thesis
      unfolding filteredReviews_def by (simp only: if_False) (rule filterE_idem)
  qed
next
  assume first: "filteredData toLowerCase searchTerm businesses = Inr listed"
  show "filteredData toLowerCase searchTerm listed = Inr listed"
  proof (cases "searchTerm = []")
    case True
    then show ?thesis by (simp add: filteredData_def)
  next
    case False
    with first show ?thesis
      unfolding filteredData_def by (simp only: if_False) (rule filterE_idem)
  qed
qed

theorem filter_identity_idempotent_witness:
  "filteredReviews lowerLatin1 [] sites = Inr sites \<and> filteredData lowerLatin1 [] shops = Inr shops
   \<and> filteredReviews lowerLatin1 ''a'' sites = Inr [bare ''Agoda'', bare ''TripAdvisor'']
   \<and> filteredReviews lowerLatin1 ''a'' [bare ''Agoda'', bare ''TripAdvisor'']
         = Inr [bare ''Agoda'', bare ''TripAdvisor'']
   \<and> filteredData lowerLatin1 ''CAFE'' shops = Inr [business ''Cafe Mercara'' ''Cafe'' 5 50]
   \<and> filteredData lowerLatin1 ''CAFE'' [business ''Cafe Mercara'' ''Cafe'' 5 50]
         = Inr [business ''Cafe Mercara'' ''Cafe'' 5 50]"
  using filter_identity_idempotent
      [of lowerLatin1 sites shops "''a''" "[bare ''Agoda'', bare ''TripAdvisor'']" "[]"]
    filter_identity_idempotent
      [of lowerLatin1 sites shops "''CAFE''" "[]" "[business ''Cafe Mercara'' ''Cafe'' 5 50]"]
  by (simp add: filteredReviews_def filteredData_def sites_def shops_def bare_def business_def
      includes_str_def lowerLatin1_def lowerUnit_def char_of_eq_iff char_eq_char_of
      sublist_Cons_right)


section \<open>The business listing\<close>

text \<open>One business adds one to the count of its bucket, if it has one.\<close>

lemma countItem_eq:
  "countItem item [(n0, c0), (n1, c1), (n2, c2), (n3, c3), (n4, c4)] =
     [(n0, c0 + (if ratedFrom 5 item then 1 else 0)),
      (n1, c1 + (if ratedIn 4 5 item then 1 else 0)),
      (n2, c2 + (if ratedIn 3 4 item then 1 else 0)),
      (n3, c3 + (if ratedIn 2 3 item then 1 else 0)),
      (n4, c4 + (if ratedIn 1 2 item then 1 else 0))]"
  by (cases "rating_b item")
     (auto simp: countItem_def geq_def bump_def ratedFrom_def ratedIn_def
        numeral_2_eq_2 numeral_3_eq_3 eval_nat_numeral)

lemma fold_countItem:
  "fold countItem data [(n0, c0), (n1, c1), (n2, c2), (n3, c3), (n4, c4)] =
     [(n0, c0 + length (filter (ratedFrom 5) data)),
      (n1, c1 + length (filter (ratedIn 4 5) data)),
      (n2, c2 + length (filter (ratedIn 3 4) data)),
      (n3, c3 + length (filter (ratedIn 2 3) data)),
      (n4, c4 + length (filter (ratedIn 1 2) data))]"
proof (induction data arbitrary: c0 c1 c2 c3 c4)
  case Nil
  show ?case by simp
next
  case (Cons item data)
  show ?case
    by (simp only: fold_simps comp_def countItem_eq Cons.IH) simp
qed

text \<open>The histogram in closed form, and the sum of its counts.\<close>

lemma ratingDistribution_eq:
  "ratingDistribution data =
     [(''5 Stars'', length (filter (ratedFrom 5) data)),
      (''4-4.9 Stars'', length (filter (ratedIn 4 5) data)),
      (''3-3.9 Stars'', length (filter (ratedIn 3 4) data)),
      (''2-2.9 Stars'', length (filter (ratedIn 2 3) data)),
      (''1-1.9 Stars'', length (filter (ratedIn 1 2) data))]"
  by (simp add: ratingDistribution_def distribution_init_def fold_countItem)

lemma bucket_count_sum:
  "length (filter (ratedFrom 5) data) + length (filter (ratedIn 4 5) data)
     + length (filter (ratedIn 3 4) data) + length (filter (ratedIn 2 3) data)
     + length (filter (ratedIn 1 2) data)
   = length (filter (ratedFrom 1) data)"
proof (induction data)
  case Nil
  show ?case by simp
next
  case (Cons item data)
  define k5 k4 k3 k2 k1 k0 :: nat
    where "k5 = (if ratedFrom 5 item then 1 else 0)"
      and "k4 = (if ratedIn 4 5 item then 1 else 0)"
      and "k3 = (if ratedIn 3 4 item then 1 else 0)"
      and "k2 = (if ratedIn 2 3 item then 1 else 0)"
      and "k1 = (if ratedIn 1 2 item then 1 else 0)"
      and "k0 = (if ratedFrom 1 item then 1 else 0)"
  have one: "k5 + k4 + k3 + k2 + k1 = k0"
    unfolding k5_def k4_def k3_def k2_def k1_def k0_def
    by (cases "rating_b item") (auto simp: ratedFrom_def ratedIn_def)
  have s5: "length (filter (ratedFrom 5) (item # data)) = k5 + length (filter (ratedFrom 5) data)"
    and s4: "length (filter (ratedIn 4 5) (item # data)) = k4 + length (filter (ratedIn 4 5) data)"
    and s3: "length (filter (ratedIn 3 4) (item # data)) = k3 + length (filter (ratedIn 3 4) data)"
    and s2: "length (filter (ratedIn 2 3) (item # data)) = k2 + length (filter (ratedIn 2 3) data)"
    and s1: "length (filter (ratedIn 1 2) (item # data)) = k1 + length (filter (ratedIn 1 2) data)"
    and s0: "length (filter (ratedFrom 1) (item # data)) = k0 + length (filter (ratedFrom 1) data)"
    unfolding k5_def k4_def k3_def k2_def k1_def k0_def by simp_all
  show ?case
    unfolding s5 s4 s3 s2 s1 s0 using Cons.IH one by linarith
qed

text \<open>The displayed average in closed form.\<close>

lemma averageRating_eq:
  "averageRating data =
     (if data = [] then NumberShown (Finite 0)
      else fixedText (toFixed2 (ddiv (sumInOrder (map (\<lambda>item. Finite (orZero (rating_b item))) data))
                                     (Finite (of_nat (length data))))))"
  by (simp add: averageRating_def Let_def sumInOrder_def foldl_map)

text \<open>
  C5, as stated: the displayed overall rating of a non-empty batch is the mean of the
  ratings weighted by the review counts.  The code divides the sum of the ratings by
  the number of businesses: ratings \<open>4\<close> with 100 reviews and \<open>5\<close> with 50 reviews are
  displayed as \<^verbatim>\<open>4.50\<close>, their weighted mean being \<^verbatim>\<open>4.33\<close>.
\<close>

theorem business_average_not_weighted:
  "averageRating shops = TextShown ''4.50''
   \<and> fixedText (toFixed2 (spec_weightedMean shops)) = TextShown ''4.33''
   \<and> averageRating shops \<noteq> fixedText (toFixed2 (spec_weightedMean shops))"
  by (simp add: averageRating_def spec_weightedMean_def sumInOrder_def shops_def business_def
      orZero_def Let_def fl_evals roundHalfEven_def decimal.simps digitChar_def
      char_of_eq_iff char_eq_char_of)

text \<open>
  C5, amended.  In the business listing the displayed overall rating of a non-empty
  batch is the simple arithmetic mean of the ratings, a missing rating taken as \<open>0\<close>:
  the sum of the ratings, added from the left in double arithmetic, divided by the
  number of businesses and written with two decimals; the review counts do not enter
  it.  For the empty batch it is the number \<open>0\<close>.  When the ratings are not negative and
  lie on a grid on which their sum stays below \<open>2\<^sup>5\<^sup>3\<close>, the sum is exact: the text is
  that of the exact sum divided by the number of businesses, rounded to a double.
\<close>

theorem business_average_unweighted:
  "averageRating data =
     (if data = [] then NumberShown (Finite 0)
      else fixedText (toFixed2 (ddiv (sumInOrder (map (\<lambda>item. Finite (orZero (rating_b item))) data))
                                     (Finite (of_nat (length data))))))
   \<and> averageRating (map (\<lambda>item. item\<lparr>reviews_b := w item\<rparr>) data) = averageRating data
   \<and> ((\<forall>item\<in>set data. 0 \<le> orZero (rating_b item) \<and> onGrid k (orZero (rating_b item)))
        \<and> k \<le> 1074 \<and> (\<Sum>item\<leftarrow>data. orZero (rating_b item)) * 2 ^ k < 2 ^ 53 \<and> data \<noteq> [] \<longrightarrow>
      averageRating data =
        fixedText (toFixed2 (fl ((\<Sum>item\<leftarrow>data. orZero (rating_b item)) / of_nat (length data)))))"
proof (intro conjI impI)
  show "averageRating data =
     (if data = [] then NumberShown (Finite 0)
      else fixedText (toFixed2 (ddiv (sumInOrder (map (\<lambda>item. Finite (orZero (rating_b item))) data))
                                     (Finite (of_nat (length data))))))"
    by (rule averageRating_eq)
  have "map (\<lambda>item. Finite (orZero (rating_b item))) (map (\<lambda>item. item\<lparr>reviews_b := w item\<rparr>) data)
          = map (\<lambda>item. Finite (orZero (rating_b item))) data"
    by simp
  then have "sumInOrder (map (\<lambda>item. Finite (orZero (rating_b item)))
                           (map (\<lambda>item. item\<lparr>reviews_b := w item\<rparr>) data))
          = sumInOrder (map (\<lambda>item. Finite (orZero (rating_b item))) data)"
    by (rule arg_cong)
  then show "averageRating (map (\<lambda>item. item\<lparr>reviews_b := w item\<rparr>) data) = averageRating data"
    by (simp add: averageRating_eq)
next
  let ?S = "\<Sum>item\<leftarrow>data. orZero (rating_b item)"
  assume h: "(\<forall>item\<in>set data. 0 \<le> orZero (rating_b item) \<and> onGrid k (orZero (rating_b item)))
        \<and> k \<le> 1074 \<and> ?S * 2 ^ k < 2 ^ 53 \<and> data \<noteq> []"
  have grid: "\<forall>item\<in>set data. 0 \<le> orZero (rating_b item) \<and> orZero (rating_b item) * 2 ^ k \<in> \<int>"
  proof
    fix item
    assume "item \<in> set data"
    with h have r: "0 \<le> orZero (rating_b item)" and g: "onGrid k (orZero (rating_b item))"
      by blast+
    from g have "of_int \<lfloor>orZero (rating_b item) * 2 ^ k\<rfloor> = orZero (rating_b item) * 2 ^ k"
      unfolding onGrid_def by blast
    then have "orZero (rating_b item) * 2 ^ k \<in> \<int>"
      by (metis Ints_of_int)
    with r show "0 \<le> orZero (rating_b item) \<and> orZero (rating_b item) * 2 ^ k \<in> \<int>"
      by blast
  qed
  have "foldl (\<lambda>sum item. dadd sum (Finite (orZero (rating_b item)))) (Finite 0) data
          = Finite (0 + ?S)"
    using grid _ _ _ conjunct1 [OF conjunct2 [OF h]]
    by (rule sum_exact) (use h in simp_all)
  then have total: "sumInOrder (map (\<lambda>item. Finite (orZero (rating_b item))) data) = Finite ?S"
    by (simp add: sumInOrder_def foldl_map)
  from h have "data \<noteq> []"
    by blast
  then show "averageRating data = fixedText (toFixed2 (fl (?S / of_nat (length data))))"
    unfolding averageRating_eq total by simp
qed

theorem business_average_unweighted_witness:
  "averageRating shops = TextShown ''4.50''
   \<and> averageRating (map (\<lambda>item. item\<lparr>reviews_b := Some 1\<rparr>) shops) = averageRating shops
   \<and> averageRating quartet = TextShown ''3.02''
   \<and> averageRating [] = NumberShown (Finite 0)"
  using business_average_unweighted [of shops "\<lambda>item. Some 1" 0]
    business_average_unweighted [of quartet "\<lambda>item. Some 1" 0]
    business_average_unweighted [of "[]" "\<lambda>item. Some 1" 0]
  by (simp add: shops_def quartet_def business_def orZero_def onGrid_def sumInOrder_def
      fl_evals rnd_evals roundHalfEven_def decimal.simps digitChar_def char_of_eq_iff
      char_eq_char_of)

text \<open>
  C10.  In the histogram of the business listing every business is counted in at most
  one bucket: in \<open>5 Stars\<close> when its rating is at least \<open>5\<close> (values above \<open>5\<close> too),
  in the bucket of \<open>k\<close> when its rating lies in \<open>[k, k + 1)\<close> for \<open>k\<close> from \<open>4\<close> down to
  \<open>1\<close>, and in no bucket when its rating is below \<open>1\<close> or missing.  So the five counts
  sum to the number of businesses rated at least \<open>1\<close>, which can be strictly less than
  the size of the batch.
\<close>

theorem business_histogram:
  "ratingDistribution data =
     [(''5 Stars'', length (filter (ratedFrom 5) data)),
      (''4-4.9 Stars'', length (filter (ratedIn 4 5) data)),
      (''3-3.9 Stars'', length (filter (ratedIn 3 4) data)),
      (''2-2.9 Stars'', length (filter (ratedIn 2 3) data)),
      (''1-1.9 Stars'', length (filter (ratedIn 1 2) data))]
   \<and> sum_list (map snd (ratingDistribution data)) = length (filter (ratedFrom 1) data)
   \<and> sum_list (map snd (ratingDistribution data)) \<le> length data
   \<and> sum_list (map snd (ratingDistribution [item])) \<le> 1
   \<and> (\<exists>batch. sum_list (map snd (ratingDistribution batch)) < length batch)"
proof (intro conjI)
  show "ratingDistribution data =
     [(''5 Stars'', length (filter (ratedFrom 5) data)),
      (''4-4.9 Stars'', length (filter (ratedIn 4 5) data)),
      (''3-3.9 Stars'', length (filter (ratedIn 3 4) data)),
      (''2-2.9 Stars'', length (filter (ratedIn 2 3) data)),
      (''1-1.9 Stars'', length (filter (ratedIn 1 2) data))]"
    by (rule ratingDistribution_eq)
  have total: "sum_list (map snd (ratingDistribution xs)) = length (filter (ratedFrom 1) xs)" for xs
    using bucket_count_sum [of xs] by (simp add: ratingDistribution_eq)
  show "sum_list (map snd (ratingDistribution data)) = length (filter (ratedFrom 1) data)"
    by (rule total)
  show "sum_list (map snd (ratingDistribution data)) \<le> length data"
    by (simp only: total length_filter_le)
  show "sum_list (map snd (ratingDistribution [item])) \<le> 1"
    by (simp only: total) simp
  have "sum_list (map snd (ratingDistribution unrated)) < length unrated"
    by (simp add: total unrated_def business_def ratedFrom_def)
  then show "\<exists>batch. sum_list (map snd (ratingDistribution batch)) < length batch" ..
qed

theorem business_histogram_witness:
  "ratingDistribution unrated =
     [(''5 Stars'', 1), (''4-4.9 Stars'', 1), (''3-3.9 Stars'', 0),
      (''2-2.9 Stars'', 0), (''1-1.9 Stars'', 0)]
   \<and> sum_list (map snd (ratingDistribution unrated)) = 2 \<and> length unrated = 4"
  using business_histogram [of unrated "unrated ! 0"]
  by (simp add: unrated_def business_def ratedFrom_def ratedIn_def)


section \<open>No exception on a batch of the documented schema\<close>

text \<open>A sum of zeros.\<close>

lemma sum_list_zero:
  fixes f :: "'a \<Rightarrow> number"
  assumes "\<And>x. x \<in> set xs \<Longrightarrow> f x = 0"
  shows "(\<Sum>x\<leftarrow>xs. f x) = 0"
  using assms by (induction xs) simp_all

text \<open>
  C8.  The summary and the distribution combiner read fields and add numbers; no step
  of theirs can throw, whatever fields are missing, and they are total functions of the
  batch.  The filter calls a method on \<^verbatim>\<open>source\<close>, which the schema requires.  For every
  batch whose records have their source, the filter returns a list of records of the
  batch, the summary counts every record and the combiner returns its five entries;
  when rating, count, distribution and reviews are missing from every record the
  summary is all zero and so is the combined distribution.
\<close>

theorem aggregation_total:
  assumes "\<forall>review\<in>set data. source review \<noteq> None"
  shows "(\<exists>shown. filteredReviews toLowerCase searchTerm data = Inr shown \<and> set shown \<subseteq> set data)
       \<and> sourceCount (summary data) = length data
       \<and> map fst (ratingDistributionData data) = [5, 4, 3, 2, 1]
       \<and> (list_all noFields data \<longrightarrow>
            summary data
              = \<lparr>avgRating = Finite 0, totalReviews = Finite 0, sourceCount = length data\<rparr>
            \<and> ratingDistributionData data = [(5, 0), (4, 0), (3, 0), (2, 0), (1, 0)])"
proof (intro conjI impI)
  show "\<exists>shown. filteredReviews toLowerCase searchTerm data = Inr shown \<and> set shown \<subseteq> set data"
    using filteredReviews_eq [OF assms, of toLowerCase searchTerm] by auto
  show "sourceCount (summary data) = length data"
    by (simp add: summary_eq)
  show "map fst (ratingDistributionData data) = [5, 4, 3, 2, 1]"
    by (simp add: ratingDistributionData_eq)
next
  assume none: "list_all noFields data"
  have c: "\<And>item. item \<in> set data \<Longrightarrow> orZero (count item) = 0"
    using none by (simp add: list_all_iff noFields_def orZero_def)
  have zero: "(\<Sum>item\<leftarrow>data. orZero (count item)) = 0"
    by (rule sum_list_zero) (rule c)
  have "\<forall>item\<in>set data. wholeCount (orZero (count item))"
    using c by (simp add: wholeCount_def)
  then have "sumInOrder (map (\<lambda>item. Finite (orZero (count item))) data) = Finite 0"
    using zero by (simp add: total_sumInOrder)
  then show "summary data
               = \<lparr>avgRating = Finite 0, totalReviews = Finite 0, sourceCount = length data\<rparr>"
    by (simp add: summary_eq)
  have "\<And>star. (\<Sum>item\<leftarrow>data. recordTotal star item) = 0"
    by (rule sum_list_zero) (use none in \<open>simp add: list_all_iff noFields_def recordTotal_def\<close>)
  then show "ratingDistributionData data = [(5, 0), (4, 0), (3, 0), (2, 0), (1, 0)]"
    by (simp add: ratingDistributionData_eq)
qed

theorem aggregation_total_witness:
  "(\<exists>shown. filteredReviews lowerLatin1 ''oo'' sites = Inr shown \<and> set shown \<subseteq> set sites)
   \<and> summary sites = \<lparr>avgRating = Finite 0, totalReviews = Finite 0, sourceCount = 3\<rparr>
   \<and> ratingDistributionData sites = [(5, 0), (4, 0), (3, 0), (2, 0), (1, 0)]"
  using aggregation_total [of sites lowerLatin1 "''oo''"]
  by (simp add: sites_def bare_def noFields_def)

end
